theory Spec2Isabelle
  imports Complex_Main
begin

section \<open>Conventions of the embedding\<close>

text \<open>
  The development embeds the parts of the nuchic sources that the specification talks
  about: the split-variant map \<open>AdaptiveMap2\<close> (declared in the AdaptiveMap header that
  is bundled with \<open>Nucleus.hh\<close>), the \<open>Nucleus\<close> accessors, and the form factors of
  the FormFactor translation unit.

  \<^item> A C++ \<open>double\<close> is modelled as the \<open>real\<close> number it holds; infinities and NaN are
    outside the model. Where a property does not depend on how results are rounded, the
    arithmetic is exact and says so. \<open>FormFactor::Fill\<close>, whose property does depend on
    it, takes the arithmetic as a parameter: \<open>exact\<close> computes without rounding,
    \<open>binary64\<close> rounds every result to the nearest number with a 53-bit significand,
    ties to even (the exponent range is not bounded: overflow and underflow are outside
    the model).
  \<^item> A \<open>size_t\<close> is a natural number below \<open>2 ^ 64\<close>; each arithmetic operation the
    source performs on \<open>size_t\<close> is written with the wrap-around (\<open>size_t\<close> below). An
    \<open>int\<close> has 32 bits (\<open>static_cast_int\<close>).
  \<^item> A \<open>std::vector<double>\<close> is a list. Allocation always succeeds. An access outside
    the vector, which is undefined behaviour in C++, is the error value \<open>OutOfBounds\<close>;
    other undefined behaviour of the standard library is \<open>UndefinedBehaviour\<close>.
  \<^item> An exception is an error value: functions that may throw return \<open>error + 'a\<close>.
\<close>

datatype error =
    OutOfBounds
  | UndefinedBehaviour
  | YamlException
  | RuntimeError string
  | InvalidArgument
  | OutOfRange
  | CorruptState

definition size_t :: "nat \<Rightarrow> nat" where
  "size_t n = n mod 2 ^ 64"

text \<open>\<open>static_cast<int>(n)\<close> for a \<open>size_t\<close> value \<open>n\<close>: the value modulo \<open>2 ^ 32\<close>, read as
  a signed 32-bit integer.\<close>

definition static_cast_int :: "nat \<Rightarrow> int" where
  "static_cast_int n =
     (if n mod 2 ^ 32 < 2 ^ 31 then int (n mod 2 ^ 32) else int (n mod 2 ^ 32) - 2 ^ 32)"

text \<open>\<open>v[i]\<close> on a vector.\<close>

definition subscript :: "real list \<Rightarrow> nat \<Rightarrow> error + real" where
  "subscript v i = (if i < length v then Inr (v ! i) else Inl OutOfBounds)"

text \<open>\<open>std::copy(v.begin(), v.begin() + n, v.begin() + k)\<close> inside one vector \<open>v\<close>. The
  iterators must stay inside the vector, the source range must not run backwards, and
  the destination must not start inside a non-empty source range.\<close>

definition std_copy :: "real list \<Rightarrow> int \<Rightarrow> int \<Rightarrow> error + real list" where
  "std_copy v n k =
     (if n < 0 \<or> int (length v) < n \<or> k < 0 \<or> int (length v) < k + n \<or> (0 < n \<and> k < n)
      then Inl UndefinedBehaviour
      else Inr (take (nat k) v @ take (nat n) v @ drop (nat (k + n)) v))"

section \<open>The split-variant map AdaptiveMap2\<close>

datatype AdaptiveMapSplit = half | third | quarter

record AdaptiveMap2 =
  m_hist :: "real list"
  m_dims :: nat
  m_bins :: nat

text \<open>The first loop of the constructor: \<open>for (i = 0; i < m_bins + 1; ++i) m_hist[i] = i / bins\<close>.
  The bound \<open>n\<close> is the wrapped value of \<open>m_bins + 1\<close>; \<open>i < n\<close> keeps \<open>++i\<close> from wrapping.\<close>

function fill_edges :: "nat \<Rightarrow> nat \<Rightarrow> nat \<Rightarrow> real list \<Rightarrow> error + real list" where
  "fill_edges i n bins hist =
     (if i < n
      then (if i < length hist
            then fill_edges (i + 1) n bins (hist[i := real i / real bins])
            else Inl OutOfBounds)
      else Inr hist)"
  by pat_completeness auto
termination
  by (relation "measure (\<lambda>(i, n, bins, hist). n - i)") auto

text \<open>The second loop: \<open>for (i = 1; i < m_dims; ++i) std::copy(begin, begin + int(bins + 1),
  begin + int(i * (bins + 1)))\<close>.\<close>

function copy_dims :: "nat \<Rightarrow> nat \<Rightarrow> nat \<Rightarrow> real list \<Rightarrow> error + real list" where
  "copy_dims i dims bins hist =
     (if i < dims
      then (case std_copy hist (static_cast_int (size_t (bins + 1)))
                   (static_cast_int (size_t (i * size_t (bins + 1)))) of
              Inl e \<Rightarrow> Inl e
            | Inr hist' \<Rightarrow> copy_dims (i + 1) dims bins hist')
      else Inr hist)"
  by pat_completeness auto
termination
  by (relation "measure (\<lambda>(i, dims, bins, hist). dims - i)") auto

definition AdaptiveMap2_default :: AdaptiveMap2 where
  "AdaptiveMap2_default = \<lparr>m_hist = [], m_dims = 0, m_bins = 0\<rparr>"

definition AdaptiveMap2_ctor :: "nat \<Rightarrow> nat \<Rightarrow> error + AdaptiveMap2" where
  "AdaptiveMap2_ctor dims bins =
     (case fill_edges 0 (size_t (bins + 1)) bins
             (replicate (size_t (dims * size_t (bins + 1))) 0) of
        Inl e \<Rightarrow> Inl e
      | Inr h1 \<Rightarrow>
          (case copy_dims 1 dims bins h1 of
             Inl e \<Rightarrow> Inl e
           | Inr h2 \<Rightarrow> Inr \<lparr>m_hist = h2, m_dims = dims, m_bins = bins\<rparr>))"

text \<open>The edge sequence that the constructor writes for one dimension: \<open>i / bins\<close> for
  \<open>i = 0, ..., bins\<close>.\<close>

definition uniform_row :: "nat \<Rightarrow> real list" where
  "uniform_row bins = map (\<lambda>j. real j / real bins) [0..<bins + 1]"

subsection \<open>Bin locations and map information\<close>

text \<open>The index expressions are the source's, in \<open>size_t\<close> arithmetic; the accessors do not
  compare \<open>bin\<close> with \<open>m_bins\<close>. The source's parameter \<open>dim\<close> is written \<open>d\<close> (\<open>dim\<close> is a
  constant of the library).\<close>

definition lower_edge :: "AdaptiveMap2 \<Rightarrow> nat \<Rightarrow> nat \<Rightarrow> error + real" where
  "lower_edge s d bin =
     subscript (m_hist s) (size_t (size_t (d * size_t (m_bins s + 1)) + bin))"

definition upper_edge :: "AdaptiveMap2 \<Rightarrow> nat \<Rightarrow> nat \<Rightarrow> error + real" where
  "upper_edge s d bin =
     subscript (m_hist s) (size_t (size_t (size_t (d * size_t (m_bins s + 1)) + bin) + 1))"

definition width :: "AdaptiveMap2 \<Rightarrow> nat \<Rightarrow> nat \<Rightarrow> error + real" where
  "width s d bin =
     (case upper_edge s d bin of
        Inl e \<Rightarrow> Inl e
      | Inr u \<Rightarrow> (case lower_edge s d bin of Inl e \<Rightarrow> Inl e | Inr l \<Rightarrow> Inr (u - l)))"

definition Edges :: "AdaptiveMap2 \<Rightarrow> real list" where
  "Edges s = m_hist s"

definition Bins :: "AdaptiveMap2 \<Rightarrow> nat" where
  "Bins s = m_bins s"

definition Dims :: "AdaptiveMap2 \<Rightarrow> nat" where
  "Dims s = m_dims s"

text \<open>The data-model invariant of a map: the flat vector holds \<open>m_bins + 1\<close> edges for each
  of the \<open>m_dims\<close> dimensions, and its length is a \<open>size_t\<close> value.\<close>

definition well_formed :: "AdaptiveMap2 \<Rightarrow> bool" where
  "well_formed s \<longleftrightarrow>
     length (m_hist s) = m_dims s * (m_bins s + 1) \<and> length (m_hist s) < 2 ^ 64"

text \<open>The edges of dimension \<open>d\<close>: the slice of the flat vector at offsets
  \<open>d * (m_bins + 1), ..., d * (m_bins + 1) + m_bins\<close>.\<close>

definition dim_edges :: "AdaptiveMap2 \<Rightarrow> nat \<Rightarrow> real list" where
  "dim_edges s d = take (m_bins s + 1) (drop (d * (m_bins s + 1)) (m_hist s))"

text \<open>A grid is uniform when every dimension holds the edges \<open>i / m_bins\<close>.\<close>

definition uniform_grid :: "AdaptiveMap2 \<Rightarrow> bool" where
  "uniform_grid s \<longleftrightarrow>
     m_hist s = concat (replicate (m_dims s) (uniform_row (m_bins s)))"

subsection \<open>Mapping a point\<close>

text \<open>Modelled from the spec: the body of \<open>AdaptiveMap2::operator()\<close> is not part of the
  sources at hand (only its declaration is). Sections 4.1 and 4.2 of the specification
  give the rule: for each dimension the bin position is \<open>y = x * bins\<close>, the bin is
  \<open>b = floor y\<close>, the fraction is \<open>f = y - b\<close>, the coordinate becomes
  \<open>edges[b] + f * (edges[b+1] - edges[b])\<close>, and the Jacobian is the product over the
  dimensions of \<open>bins * (edges[b+1] - edges[b])\<close>. A coordinate outside \<open>[0, 1)\<close> is
  \<open>OutOfRange\<close>; a point whose length is not the number of dimensions is
  \<open>InvalidArgument\<close>. The edges are read through the accessors of the source.\<close>

fun map_coords :: "AdaptiveMap2 \<Rightarrow> nat \<Rightarrow> real list \<Rightarrow> error + (real list \<times> real)" where
  "map_coords s d [] = Inr ([], 1)"
| "map_coords s d (x # xs) =
     (if x < 0 \<or> 1 \<le> x then Inl OutOfRange
      else
        (let y = x * real (m_bins s); b = nat \<lfloor>y\<rfloor>; f = y - real b in
         (case lower_edge s d b of
            Inl e \<Rightarrow> Inl e
          | Inr lo \<Rightarrow>
              (case upper_edge s d b of
                 Inl e \<Rightarrow> Inl e
               | Inr hi \<Rightarrow>
                   (case map_coords s (d + 1) xs of
                      Inl e \<Rightarrow> Inl e
                    | Inr (ys, jac) \<Rightarrow>
                        Inr ((lo + f * (hi - lo)) # ys,
                             real (m_bins s) * (hi - lo) * jac))))))"

text \<open>Modelled from the spec: \<open>AdaptiveMap2::operator()\<close> (body not in the sources); the
  result is the overwritten point together with the returned Jacobian.\<close>

definition AdaptiveMap2_call :: "AdaptiveMap2 \<Rightarrow> real list \<Rightarrow> error + (real list \<times> real)" where
  "AdaptiveMap2_call s point =
     (if length point \<noteq> m_dims s then Inl InvalidArgument else map_coords s 0 point)"

subsection \<open>Splitting\<close>

text \<open>Modelled from the spec: the number of parts a bin is split into (halves, thirds,
  quarters), read off the names of the enum \<open>AdaptiveMapSplit\<close> and section 4.2.\<close>

definition nsplit :: "AdaptiveMapSplit \<Rightarrow> nat" where
  "nsplit split = (case split of half \<Rightarrow> 2 | third \<Rightarrow> 3 | quarter \<Rightarrow> 4)"

text \<open>Modelled from the spec: the body of \<open>AdaptiveMap2::Split\<close> is not part of the sources
  at hand. Section 4.2 of the specification: new edges are inserted inside every
  existing bin of every dimension (the midpoint for \<open>half\<close>, the points at 1/3 and 2/3
  for \<open>third\<close>, the three quartile points for \<open>quarter\<close>), the existing edges are kept.
  \<open>refine k\<close> does this for the edges of one dimension: every bin \<open>[lo, hi]\<close> keeps \<open>lo\<close> and
  receives the interior points \<open>lo + j * (hi - lo) / k\<close> for \<open>j = 1, ..., k - 1\<close>.\<close>

fun refine :: "nat \<Rightarrow> real list \<Rightarrow> real list" where
  "refine k (lo # hi # es) =
     lo # map (\<lambda>j. lo + real j * (hi - lo) / real k) [1..<k] @ refine k (hi # es)"
| "refine k es = es"

text \<open>Modelled from the spec: \<open>AdaptiveMap2::Split\<close> (body not in the sources) refines every
  dimension and multiplies the bin count.\<close>

definition Split :: "AdaptiveMapSplit \<Rightarrow> AdaptiveMap2 \<Rightarrow> AdaptiveMap2" where
  "Split split s =
     \<lparr>m_hist = concat (map (\<lambda>d. refine (nsplit split) (dim_edges s d)) [0..<m_dims s]),
      m_dims = m_dims s,
      m_bins = nsplit split * m_bins s\<rparr>"

subsection \<open>Serialization\<close>

text \<open>Modelled from the spec: the bodies of \<open>AdaptiveMap2::Serialize\<close> and
  \<open>AdaptiveMap2::Deserialize\<close> are not part of the sources at hand. Section 6 of the
  specification: the stream holds, in order, the dimension count, the bin count, then
  \<open>dims * (bins + 1)\<close> edge values; \<open>Deserialize\<close> rejects a stream whose declared counts
  do not match the data (\<open>CorruptState\<close>). A stream is a list of items, each a count or
  an edge value.\<close>

datatype item = Count nat | Value real

fun values_of :: "item list \<Rightarrow> real list option" where
  "values_of [] = Some []"
| "values_of (Value v # is) = (case values_of is of None \<Rightarrow> None | Some vs \<Rightarrow> Some (v # vs))"
| "values_of (Count n # is) = None"

text \<open>Modelled from the spec: \<open>AdaptiveMap2::Serialize\<close> (body not in the sources).\<close>

definition Serialize :: "AdaptiveMap2 \<Rightarrow> item list" where
  "Serialize s = Count (m_dims s) # Count (m_bins s) # map Value (m_hist s)"

text \<open>Modelled from the spec: \<open>AdaptiveMap2::Deserialize\<close> (body not in the sources).\<close>

fun Deserialize :: "item list \<Rightarrow> error + AdaptiveMap2" where
  "Deserialize (Count dims # Count bins # rest) =
     (case values_of rest of
        None \<Rightarrow> Inl CorruptState
      | Some vs \<Rightarrow>
          if length vs = dims * (bins + 1)
          then Inr \<lparr>m_hist = vs, m_dims = dims, m_bins = bins\<rparr>
          else Inl CorruptState)"
| "Deserialize _ = Inl CorruptState"

section \<open>The Nucleus class\<close>

text \<open>\<open>Particle\<close>, the density function and the random number generator are opaque to
  \<open>Nucleus.hh\<close>; they are type parameters of the record.\<close>

record ('p, 'f, 'g) Nucleus =
  nucleons :: "'p list"
  protons :: "'p list"
  neutrons :: "'p list"
  binding :: real
  fermiMomentum :: real
  radius :: real
  potential :: real
  density :: 'f
  rng :: 'g

definition SetBindingEnergy :: "real \<Rightarrow> ('p, 'f, 'g) Nucleus \<Rightarrow> ('p, 'f, 'g) Nucleus" where
  "SetBindingEnergy energy n = n\<lparr>binding := energy\<rparr>"

definition SetFermiMomentum :: "real \<Rightarrow> ('p, 'f, 'g) Nucleus \<Rightarrow> ('p, 'f, 'g) Nucleus" where
  "SetFermiMomentum mom n = n\<lparr>fermiMomentum := mom\<rparr>"

definition SetPotential :: "real \<Rightarrow> ('p, 'f, 'g) Nucleus \<Rightarrow> ('p, 'f, 'g) Nucleus" where
  "SetPotential energy n = n\<lparr>potential := energy\<rparr>"

definition SetDensity :: "'f \<Rightarrow> ('p, 'f, 'g) Nucleus \<Rightarrow> ('p, 'f, 'g) Nucleus" where
  "SetDensity d n = n\<lparr>density := d\<rparr>"

definition Nucleons :: "('p, 'f, 'g) Nucleus \<Rightarrow> 'p list" where
  "Nucleons n = nucleons n"

definition Protons :: "('p, 'f, 'g) Nucleus \<Rightarrow> 'p list" where
  "Protons n = protons n"

definition Neutrons :: "('p, 'f, 'g) Nucleus \<Rightarrow> 'p list" where
  "Neutrons n = neutrons n"

definition BindingEnergy :: "('p, 'f, 'g) Nucleus \<Rightarrow> real" where
  "BindingEnergy n = binding n"

definition FermiMomentum :: "('p, 'f, 'g) Nucleus \<Rightarrow> real" where
  "FermiMomentum n = fermiMomentum n"

definition PotentialEnergy :: "('p, 'f, 'g) Nucleus \<Rightarrow> real" where
  "PotentialEnergy n = potential n"

definition Radius :: "('p, 'f, 'g) Nucleus \<Rightarrow> real" where
  "Radius n = radius n"

section \<open>Form factors\<close>

text \<open>The struct \<open>FormFactor::Values\<close> is declared in a header that is not at hand; its
  fields are the ones the translation unit assigns. \<open>Values result{}\<close> value-initialises
  them to zero.\<close>

record Values =
  Gep :: real
  Gen :: real
  Gmp :: real
  Gmn :: real
  Ges :: real
  Gev :: real
  Gms :: real
  Gmv :: real
  F1s :: real
  F1v :: real
  F2s :: real
  F2v :: real

definition Values_init :: Values where
  "Values_init = \<lparr>Gep = 0, Gen = 0, Gmp = 0, Gmn = 0, Ges = 0, Gev = 0, Gms = 0, Gmv = 0,
                   F1s = 0, F1v = 0, F2s = 0, F2v = 0\<rparr>"

subsection \<open>Double-precision arithmetic\<close>

text \<open>The four operations \<open>+\<close>, \<open>-\<close>, \<open>*\<close>, \<open>/\<close> on doubles.\<close>

record arithmetic =
  fadd :: "real \<Rightarrow> real \<Rightarrow> real"
  fsub :: "real \<Rightarrow> real \<Rightarrow> real"
  fmul :: "real \<Rightarrow> real \<Rightarrow> real"
  fdiv :: "real \<Rightarrow> real \<Rightarrow> real"

definition exact :: arithmetic where
  "exact = \<lparr>fadd = (\<lambda>x y. x + y), fsub = (\<lambda>x y. x - y), fmul = (\<lambda>x y. x * y),
            fdiv = (\<lambda>x y. x / y)\<rparr>"

text \<open>Rounding to the nearest integer, a tie going to the even neighbour.\<close>

definition round_even :: "real \<Rightarrow> int" where
  "round_even y =
     (if y - of_int \<lfloor>y\<rfloor> < 1 / 2 then \<lfloor>y\<rfloor>
      else if 1 / 2 < y - of_int \<lfloor>y\<rfloor> then \<lfloor>y\<rfloor> + 1
      else if even \<lfloor>y\<rfloor> then \<lfloor>y\<rfloor> else \<lfloor>y\<rfloor> + 1)"

text \<open>Rounding to binary64, to nearest and ties to even: a number \<open>x\<close> with
  \<open>2 ^ k \<le> |x| < 2 ^ (k + 1)\<close> is rounded to a multiple of \<open>2 ^ (k - 52)\<close>, so that the
  significand has 53 bits.\<close>

definition rne :: "real \<Rightarrow> real" where
  "rne x =
     (if x = 0 then 0
      else of_int (round_even (x / 2 powi (\<lfloor>log 2 \<bar>x\<bar>\<rfloor> - 52))) *
           2 powi (\<lfloor>log 2 \<bar>x\<bar>\<rfloor> - 52))"

definition binary64 :: arithmetic where
  "binary64 = \<lparr>fadd = (\<lambda>x y. rne (x + y)), fsub = (\<lambda>x y. rne (x - y)),
               fmul = (\<lambda>x y. rne (x * y)), fdiv = (\<lambda>x y. rne (x / y))\<rparr>"

subsection \<open>Fill and the dipole form factor\<close>

text \<open>\<open>FormFactor::Fill\<close>: eight assignments in sequence, each reading the fields as the
  earlier ones left them, in the arithmetic \<open>ar\<close>.\<close>

definition Fill :: "arithmetic \<Rightarrow> real \<Rightarrow> Values \<Rightarrow> Values" where
  "Fill ar tau result =
     (let r1 = result\<lparr>Ges := fadd ar (Gep result) (Gen result)\<rparr>;
          r2 = r1\<lparr>Gev := fsub ar (Gep r1) (Gen r1)\<rparr>;
          r3 = r2\<lparr>Gms := fadd ar (Gmp r2) (Gmn r2)\<rparr>;
          r4 = r3\<lparr>Gmv := fsub ar (Gmp r3) (Gmn r3)\<rparr>;
          r5 = r4\<lparr>F1s := fdiv ar (fadd ar (Ges r4) (fmul ar tau (Gms r4))) (fadd ar 1 tau)\<rparr>;
          r6 = r5\<lparr>F1v := fdiv ar (fadd ar (Gev r5) (fmul ar tau (Gmv r5))) (fadd ar 1 tau)\<rparr>;
          r7 = r6\<lparr>F2s := fdiv ar (fadd ar (Gms r6) (fmul ar tau (Ges r6))) (fadd ar 1 tau)\<rparr>
      in r7\<lparr>F2v := fdiv ar (fadd ar (Gmv r7) (fmul ar tau (Gev r7))) (fadd ar 1 tau)\<rparr>)"

record Dipole =
  lambda :: real
  MA :: real
  muP :: real
  muN :: real

text \<open>\<open>Dipole::operator()\<close>, in exact arithmetic. The constants \<open>Constant::mp\<close> and
  \<open>1_GeV\<close> come from headers that are not at hand; they are the parameters \<open>mp\<close> and
  \<open>GeV\<close>. \<open>pow(x, 2)\<close> is the square.\<close>

definition Dipole_call :: "real \<Rightarrow> real \<Rightarrow> Dipole \<Rightarrow> real \<Rightarrow> Values" where
  "Dipole_call mp GeV d Q2 =
     (let r1 = Values_init\<lparr>Gep := 1 / (1 + Q2 / lambda d / lambda d) ^ 2\<rparr>;
          r2 = r1\<lparr>Gen := - muN d * Q2 * Gep r1 / (1 + Q2 / (mp / GeV) ^ 2) / (4 * (mp / GeV) ^ 2)\<rparr>;
          r3 = r2\<lparr>Gmp := muP d * Gep r2\<rparr>;
          r4 = r3\<lparr>Gmp := muN d * Gep r3\<rparr>;
          tau = Q2 / 4 / (mp / GeV) ^ 2
      in Fill exact tau r4)"

subsection \<open>Configuration nodes\<close>

text \<open>A parsed \<open>YAML::Node\<close>: a scalar with its text, a sequence or a map. A node handle is
  a \<open>yaml option\<close>: \<open>None\<close> is the invalid node that \<open>operator[]\<close> yields for a missing
  key. The conversions \<open>as<T>()\<close> throw on an invalid node and on a node of the wrong
  shape. How yaml-cpp reads a scalar's text as a double is the parameter \<open>conv\<close>.\<close>

datatype yaml = YScalar string | YSeq "yaml list" | YMap "(string \<times> yaml) list"

fun yaml_get :: "yaml option \<Rightarrow> string \<Rightarrow> yaml option" where
  "yaml_get (Some (YMap kvs)) key = map_of kvs key"
| "yaml_get _ key = None"

fun as_string :: "yaml option \<Rightarrow> error + string" where
  "as_string (Some (YScalar s)) = Inr s"
| "as_string _ = Inl YamlException"

fun as_double :: "(string \<Rightarrow> real option) \<Rightarrow> yaml option \<Rightarrow> error + real" where
  "as_double conv (Some (YScalar s)) =
     (case conv s of None \<Rightarrow> Inl YamlException | Some r \<Rightarrow> Inr r)"
| "as_double conv _ = Inl YamlException"

fun as_doubles :: "(string \<Rightarrow> real option) \<Rightarrow> yaml list \<Rightarrow> error + real list" where
  "as_doubles conv [] = Inr []"
| "as_doubles conv (y # ys) =
     (case as_double conv (Some y) of
        Inl e \<Rightarrow> Inl e
      | Inr r \<Rightarrow> (case as_doubles conv ys of Inl e \<Rightarrow> Inl e | Inr rs \<Rightarrow> Inr (r # rs)))"

text \<open>\<open>as<std::array<double, n>>()\<close>: a sequence of exactly \<open>n\<close> doubles.\<close>

fun as_array :: "(string \<Rightarrow> real option) \<Rightarrow> nat \<Rightarrow> yaml option \<Rightarrow> error + real list" where
  "as_array conv n (Some (YSeq ys)) =
     (if length ys = n then as_doubles conv ys else Inl YamlException)"
| "as_array conv n _ = Inl YamlException"

text \<open>Sequencing of computations that may throw.\<close>

definition bind :: "error + 'a \<Rightarrow> ('a \<Rightarrow> error + 'b) \<Rightarrow> error + 'b" where
  "bind m f = (case m of Inl e \<Rightarrow> Inl e | Inr a \<Rightarrow> f a)"

subsection \<open>The constructors of the form factors\<close>

text \<open>The records of the other three classes prefix the members that share a name with a
  member of \<open>Dipole\<close>, since record fields live in one name space.\<close>

record Kelly =
  Kelly_lambda :: real
  Kelly_MA :: real
  Kelly_muP :: real
  Kelly_muN :: real
  termsEp :: "real list"
  termsEn :: "real list"
  termsMp :: "real list"
  termsMn :: "real list"

record BBBA =
  BBBA_muP :: real
  BBBA_muN :: real
  numEp :: "real list"
  denEp :: "real list"
  numEn :: "real list"
  denEn :: "real list"
  numMp :: "real list"
  denMp :: "real list"
  numMn :: "real list"
  denMn :: "real list"

record ArringtonHill =
  ArringtonHill_muP :: real
  ArringtonHill_muN :: real
  tcut :: real
  t0 :: real
  epParams :: "real list"
  enParams :: "real list"
  mpParams :: "real list"
  mnParams :: "real list"

definition Dipole_ctor :: "(string \<Rightarrow> real option) \<Rightarrow> yaml option \<Rightarrow> error + Dipole" where
  "Dipole_ctor conv config =
     bind (as_double conv (yaml_get config ''lambda'')) (\<lambda>l.
     bind (as_double conv (yaml_get config ''MA'')) (\<lambda>ma.
     bind (as_double conv (yaml_get config ''Mu Proton'')) (\<lambda>mup.
     bind (as_double conv (yaml_get config ''Mu Neutron'')) (\<lambda>mun.
     Inr \<lparr>lambda = l, MA = ma, muP = mup, muN = mun\<rparr>))))"

definition Kelly_ctor :: "(string \<Rightarrow> real option) \<Rightarrow> yaml option \<Rightarrow> error + Kelly" where
  "Kelly_ctor conv config =
     bind (as_double conv (yaml_get config ''lambda'')) (\<lambda>l.
     bind (as_double conv (yaml_get config ''MA'')) (\<lambda>ma.
     bind (as_double conv (yaml_get config ''Mu Proton'')) (\<lambda>mup.
     bind (as_double conv (yaml_get config ''Mu Neutron'')) (\<lambda>mun.
     bind (as_array conv 4 (yaml_get config ''Gep Params'')) (\<lambda>ep.
     bind (as_array conv 2 (yaml_get config ''Gen Params'')) (\<lambda>en.
     bind (as_array conv 4 (yaml_get config ''Gmp Params'')) (\<lambda>mp.
     bind (as_array conv 4 (yaml_get config ''Gmn Params'')) (\<lambda>mn.
     Inr \<lparr>Kelly_lambda = l, Kelly_MA = ma, Kelly_muP = mup, Kelly_muN = mun,
          termsEp = ep, termsEn = en, termsMp = mp, termsMn = mn\<rparr>))))))))"

definition BBBA_ctor :: "(string \<Rightarrow> real option) \<Rightarrow> yaml option \<Rightarrow> error + BBBA" where
  "BBBA_ctor conv config =
     bind (as_double conv (yaml_get config ''Mu Proton'')) (\<lambda>mup.
     bind (as_double conv (yaml_get config ''Mu Neutron'')) (\<lambda>mun.
     bind (as_array conv 4 (yaml_get config ''NumeratorEp Params'')) (\<lambda>nep.
     bind (as_array conv 4 (yaml_get config ''DenominatorEp Params'')) (\<lambda>dep.
     bind (as_array conv 4 (yaml_get config ''NumeratorEn Params'')) (\<lambda>nen.
     bind (as_array conv 4 (yaml_get config ''DenominatorEn Params'')) (\<lambda>den.
     bind (as_array conv 4 (yaml_get config ''NumeratorMp Params'')) (\<lambda>nmp.
     bind (as_array conv 4 (yaml_get config ''DenominatorMp Params'')) (\<lambda>dmp.
     bind (as_array conv 4 (yaml_get config ''NumeratorMn Params'')) (\<lambda>nmn.
     bind (as_array conv 4 (yaml_get config ''DenominatorMn Params'')) (\<lambda>dmn.
     Inr \<lparr>BBBA_muP = mup, BBBA_muN = mun, numEp = nep, denEp = dep, numEn = nen,
          denEn = den, numMp = nmp, denMp = dmp, numMn = nmn, denMn = dmn\<rparr>))))))))))"

definition ArringtonHill_ctor ::
  "(string \<Rightarrow> real option) \<Rightarrow> yaml option \<Rightarrow> error + ArringtonHill" where
  "ArringtonHill_ctor conv config =
     bind (as_double conv (yaml_get config ''Mu Proton'')) (\<lambda>mup.
     bind (as_double conv (yaml_get config ''Mu Neutron'')) (\<lambda>mun.
     bind (as_double conv (yaml_get config ''tcut'')) (\<lambda>tc.
     bind (as_double conv (yaml_get config ''t0'')) (\<lambda>t.
     bind (as_array conv 13 (yaml_get config ''Gep Params'')) (\<lambda>ep.
     bind (as_array conv 13 (yaml_get config ''Gen Params'')) (\<lambda>en.
     bind (as_array conv 13 (yaml_get config ''Gmp Params'')) (\<lambda>mp.
     bind (as_array conv 13 (yaml_get config ''Gmn Params'')) (\<lambda>mn.
     Inr \<lparr>ArringtonHill_muP = mup, ArringtonHill_muN = mun, tcut = tc, t0 = t,
          epParams = ep, enParams = en, mpParams = mp, mnParams = mn\<rparr>))))))))"

subsection \<open>FormFactor::Build\<close>

text \<open>The object behind the returned \<open>std::unique_ptr<FormFactor>\<close>: one of the four
  concrete classes. The pointer itself is a \<open>FormFactor option\<close>, \<open>None\<close> being the null
  pointer that \<open>result\<close> holds before an assignment.\<close>

datatype FormFactor =
    FF_Dipole Dipole
  | FF_Kelly Kelly
  | FF_BBBA BBBA
  | FF_ArringtonHill ArringtonHill

definition Build :: "(string \<Rightarrow> real option) \<Rightarrow> yaml \<Rightarrow> error + FormFactor option" where
  "Build conv node =
     bind (as_string (yaml_get (Some node) ''FormFactor'')) (\<lambda>formFactor.
       if formFactor = ''Dipole''
       then bind (Dipole_ctor conv (yaml_get (Some node) ''Dipole'')) (\<lambda>d. Inr (Some (FF_Dipole d)))
       else if formFactor = ''Kelly''
       then bind (Kelly_ctor conv (yaml_get (Some node) ''Kelly'')) (\<lambda>k. Inr (Some (FF_Kelly k)))
       else if formFactor = ''BBBA''
       then bind (BBBA_ctor conv (yaml_get (Some node) ''BBBA'')) (\<lambda>b. Inr (Some (FF_BBBA b)))
       else if formFactor = ''ArringtonHill''
       then bind (ArringtonHill_ctor conv (yaml_get (Some node) ''ArringtonHill''))
              (\<lambda>a. Inr (Some (FF_ArringtonHill a)))
       else Inl (RuntimeError (''Invalid Form Factor: '' @ formFactor)))"

text \<open>The name of the concrete class of a form factor.\<close>

fun class_name :: "FormFactor \<Rightarrow> string" where
  "class_name (FF_Dipole d) = ''Dipole''"
| "class_name (FF_Kelly k) = ''Kelly''"
| "class_name (FF_BBBA b) = ''BBBA''"
| "class_name (FF_ArringtonHill a) = ''ArringtonHill''"

subsection \<open>Complete configurations\<close>

text \<open>A parameter is usable as a double when its node is present, is a scalar and its
  text converts; as an array of \<open>n\<close> doubles when its node is a sequence of \<open>n\<close> such
  scalars. A configuration is complete for a class when every parameter that the
  constructor of the class reads is usable.\<close>

fun is_double :: "(string \<Rightarrow> real option) \<Rightarrow> yaml option \<Rightarrow> bool" where
  "is_double conv (Some (YScalar s)) = (conv s \<noteq> None)"
| "is_double conv _ = False"

fun is_array :: "(string \<Rightarrow> real option) \<Rightarrow> nat \<Rightarrow> yaml option \<Rightarrow> bool" where
  "is_array conv n (Some (YSeq ys)) =
     (length ys = n \<and> list_all (\<lambda>y. is_double conv (Some y)) ys)"
| "is_array conv n _ = False"

definition Dipole_complete :: "(string \<Rightarrow> real option) \<Rightarrow> yaml option \<Rightarrow> bool" where
  "Dipole_complete conv config \<longleftrightarrow>
     is_double conv (yaml_get config ''lambda'') \<and>
     is_double conv (yaml_get config ''MA'') \<and>
     is_double conv (yaml_get config ''Mu Proton'') \<and>
     is_double conv (yaml_get config ''Mu Neutron'')"

definition Kelly_complete :: "(string \<Rightarrow> real option) \<Rightarrow> yaml option \<Rightarrow> bool" where
  "Kelly_complete conv config \<longleftrightarrow>
     is_double conv (yaml_get config ''lambda'') \<and>
     is_double conv (yaml_get config ''MA'') \<and>
     is_double conv (yaml_get config ''Mu Proton'') \<and>
     is_double conv (yaml_get config ''Mu Neutron'') \<and>
     is_array conv 4 (yaml_get config ''Gep Params'') \<and>
     is_array conv 2 (yaml_get config ''Gen Params'') \<and>
     is_array conv 4 (yaml_get config ''Gmp Params'') \<and>
     is_array conv 4 (yaml_get config ''Gmn Params'')"

definition BBBA_complete :: "(string \<Rightarrow> real option) \<Rightarrow> yaml option \<Rightarrow> bool" where
  "BBBA_complete conv config \<longleftrightarrow>
     is_double conv (yaml_get config ''Mu Proton'') \<and>
     is_double conv (yaml_get config ''Mu Neutron'') \<and>
     is_array conv 4 (yaml_get config ''NumeratorEp Params'') \<and>
     is_array conv 4 (yaml_get config ''DenominatorEp Params'') \<and>
     is_array conv 4 (yaml_get config ''NumeratorEn Params'') \<and>
     is_array conv 4 (yaml_get config ''DenominatorEn Params'') \<and>
     is_array conv 4 (yaml_get config ''NumeratorMp Params'') \<and>
     is_array conv 4 (yaml_get config ''DenominatorMp Params'') \<and>
     is_array conv 4 (yaml_get config ''NumeratorMn Params'') \<and>
     is_array conv 4 (yaml_get config ''DenominatorMn Params'')"

definition ArringtonHill_complete :: "(string \<Rightarrow> real option) \<Rightarrow> yaml option \<Rightarrow> bool" where
  "ArringtonHill_complete conv config \<longleftrightarrow>
     is_double conv (yaml_get config ''Mu Proton'') \<and>
     is_double conv (yaml_get config ''Mu Neutron'') \<and>
     is_double conv (yaml_get config ''tcut'') \<and>
     is_double conv (yaml_get config ''t0'') \<and>
     is_array conv 13 (yaml_get config ''Gep Params'') \<and>
     is_array conv 13 (yaml_get config ''Gen Params'') \<and>
     is_array conv 13 (yaml_get config ''Gmp Params'') \<and>
     is_array conv 13 (yaml_get config ''Gmn Params'')"

section \<open>Example inputs\<close>

text \<open>An example state: the map with two dimensions of one bin each, as
  \<open>AdaptiveMap2(2, 1)\<close> builds it.\<close>

abbreviation two_by_one :: AdaptiveMap2 where
  "two_by_one \<equiv> \<lparr>m_hist = [0, 1, 0, 1], m_dims = 2, m_bins = 1\<rparr>"

text \<open>Example values used where a theorem is applied to a concrete input.\<close>

abbreviation carbon :: "(bool, unit, unit) Nucleus" where
  "carbon \<equiv> \<lparr>nucleons = [True, False], protons = [True], neutrons = [False], binding = 10,
             fermiMomentum = 225, radius = 3, potential = 30, density = (), rng = ()\<rparr>"

abbreviation sample_values :: Values where
  "sample_values \<equiv> \<lparr>Gep = 3, Gen = 1, Gmp = 5, Gmn = 2, Ges = 0, Gev = 0, Gms = 0, Gmv = 0,
                    F1s = 0, F1v = 0, F2s = 0, F2v = 0\<rparr>"

abbreviation sample_dipole :: Dipole where
  "sample_dipole \<equiv> \<lparr>lambda = 1, MA = 1, muP = 3, muN = - 2\<rparr>"

text \<open>Example configurations: a conversion that reads the text \<open>1\<close>, a complete dipole
  configuration, one that names the dipole without giving its parameters, one whose
  \<open>MA\<close> does not convert, and one with an unknown name.\<close>

definition read_one :: "string \<Rightarrow> real option" where
  "read_one s = (if s = ''1'' then Some 1 else None)"

abbreviation dipole_config :: yaml where
  "dipole_config \<equiv>
     YMap [(''FormFactor'', YScalar ''Dipole''),
           (''Dipole'', YMap [(''lambda'', YScalar ''1''), (''MA'', YScalar ''1''),
                              (''Mu Proton'', YScalar ''1''), (''Mu Neutron'', YScalar ''1'')])]"

abbreviation bare_dipole_config :: yaml where
  "bare_dipole_config \<equiv> YMap [(''FormFactor'', YScalar ''Dipole'')]"

abbreviation unreadable_dipole_config :: yaml where
  "unreadable_dipole_config \<equiv>
     YMap [(''FormFactor'', YScalar ''Dipole''),
           (''Dipole'', YMap [(''lambda'', YScalar ''1''), (''MA'', YScalar ''one''),
                              (''Mu Proton'', YScalar ''1''), (''Mu Neutron'', YScalar ''1'')])]"

abbreviation unknown_config :: yaml where
  "unknown_config \<equiv> YMap [(''FormFactor'', YScalar ''Sachs'')]"

text \<open>The map with two dimensions of two bins each, as \<open>AdaptiveMap2(2, 2)\<close> builds it.\<close>

abbreviation two_by_two :: AdaptiveMap2 where
  "two_by_two \<equiv> \<lparr>m_hist = [0, 1 / 2, 1, 0, 1 / 2, 1], m_dims = 2, m_bins = 2\<rparr>"

text \<open>The doubles nearest to 0.1 and 0.2 as \<open>Gep\<close> and \<open>Gen\<close>.\<close>

abbreviation tenth_and_fifth :: Values where
  "tenth_and_fifth \<equiv> \<lparr>Gep = 3602879701896397 / 2 ^ 55, Gen = 3602879701896397 / 2 ^ 54,
                      Gmp = 0, Gmn = 0, Ges = 0, Gev = 0, Gms = 0, Gmv = 0,
                      F1s = 0, F1v = 0, F2s = 0, F2v = 0\<rparr>"

section \<open>Properties\<close>

subsection \<open>The constructor of AdaptiveMap2\<close>

lemma size_t_id: "n < 2 ^ 64 \<Longrightarrow> size_t n = n"
  by (simp add: size_t_def)

lemma fill_edges_run:
  "i \<le> n \<Longrightarrow> n \<le> length hist \<Longrightarrow>
   fill_edges i n bins hist =
     Inr (take i hist @ map (\<lambda>j. real j / real bins) [i..<n] @ drop n hist)"
proof (induction i n bins hist rule: fill_edges.induct)
  case (1 i n bins hist)
  show ?case
  proof (cases "i < n")
    case True
    with "1.prems" have il: "i < length hist" by simp
    have step: "fill_edges i n bins hist = fill_edges (i + 1) n bins (hist[i := real i / real bins])"
      using True il by (subst fill_edges.simps) simp
    have ih: "fill_edges (i + 1) n bins (hist[i := real i / real bins]) =
        Inr (take (i + 1) (hist[i := real i / real bins]) @ map (\<lambda>j. real j / real bins) [i + 1..<n]
             @ drop n (hist[i := real i / real bins]))"
      using "1.IH"[OF True il] True "1.prems" by simp
    have t: "take (i + 1) (hist[i := real i / real bins]) = take i hist @ [real i / real bins]"
      using il by (simp add: take_Suc_conv_app_nth)
    have d: "drop n (hist[i := real i / real bins]) = drop n hist"
      using True by simp
    have u: "[i..<n] = i # [i + 1..<n]"
      using True by (simp add: upt_conv_Cons)
    show ?thesis
      unfolding step ih t d u by simp
  next
    case False
    with "1.prems" have "i = n" by simp
    then show ?thesis
      by (subst fill_edges.simps) simp
  qed
qed

lemma static_cast_int_id: "n < 2 ^ 31 \<Longrightarrow> static_cast_int n = int n"
  by (simp add: static_cast_int_def)

lemma length_concat_replicate: "length (concat (replicate i row)) = i * length row"
  by (induction i) simp_all

lemma concat_replicate_snoc:
  "concat (replicate (i + 1) row) = concat (replicate i row) @ row"
  by (induction i) simp_all

lemma std_copy_row:
  assumes "length row = b" "0 < b" "1 \<le> i" "b \<le> length rest"
  shows "std_copy (concat (replicate i row) @ rest) (int b) (int (i * b)) =
         Inr (concat (replicate (i + 1) row) @ drop b rest)"
proof -
  let ?v = "concat (replicate i row) @ rest"
  have len: "length (concat (replicate i row)) = i * b"
    using assms(1) by (simp add: length_concat_replicate)
  obtain k where i: "i = Suc k" using assms(3) by (cases i) auto
  have bi: "b \<le> i * b" using i by simp
  have t1: "take (i * b) ?v = concat (replicate i row)"
    using len by simp
  have t2: "take b ?v = row"
    using assms(1) i by simp
  have d: "drop (i * b + b) ?v = drop b rest"
    using len by simp
  have ok: "\<not> (int b < 0 \<or> int (length ?v) < int b \<or> int (i * b) < 0 \<or>
          int (length ?v) < int (i * b) + int b \<or> (0 < int b \<and> int (i * b) < int b))"
  proof -
    have "int (length ?v) = int (i * b) + int (length rest)" using len by simp
    moreover have "int b \<le> int (length rest)" using assms(4) by simp
    moreover have "int b \<le> int (i * b)" using bi by (rule of_nat_mono)
    moreover have "0 < int b" using assms(2) by simp
    ultimately show ?thesis by linarith
  qed
  have "std_copy ?v (int b) (int (i * b)) =
      Inr (take (nat (int (i * b))) ?v @ take (nat (int b)) ?v @ drop (nat (int (i * b) + int b)) ?v)"
    unfolding std_copy_def using ok by (simp only: if_False)
  moreover have "nat (int (i * b) + int b) = i * b + b"
    by (simp only: of_nat_add[symmetric] nat_int)
  moreover note concat_replicate_snoc[of i row]
  ultimately show ?thesis
    using t1 t2 d by (simp only: nat_int append_assoc)
qed

lemma copy_dims_run:
  assumes "length row = bins + 1" "(dims - 1) * (bins + 1) < 2 ^ 31" "dims * (bins + 1) < 2 ^ 64"
  shows "1 \<le> i \<Longrightarrow> i \<le> dims \<Longrightarrow> length rest = (dims - i) * (bins + 1) \<Longrightarrow>
     copy_dims i dims bins (concat (replicate i row) @ rest) = Inr (concat (replicate dims row))"
proof (induction "dims - i" arbitrary: i rest)
  case 0
  then have "i = dims" by simp
  with 0 show ?case by (subst copy_dims.simps) simp
next
  case (Suc k)
  then have lt: "i < dims" by simp
  let ?b = "bins + 1"
  have b64: "?b < 2 ^ 64"
  proof -
    have "1 * ?b \<le> dims * ?b" using lt by (intro mult_right_mono) simp_all
    with assms(3) show ?thesis by simp
  qed
  have ib: "i * ?b \<le> (dims - 1) * ?b" using lt by (intro mult_right_mono) simp_all 
  have b31: "?b < 2 ^ 31"
  proof -
    have "1 * ?b \<le> i * ?b" using Suc.prems(1) by (intro mult_right_mono) simp_all
    with ib assms(2) show ?thesis by simp
  qed
  have ib31: "i * ?b < 2 ^ 31" using ib assms(2) by simp
  have c1: "static_cast_int (size_t ?b) = int ?b"
    using b31 by (simp add: size_t_def static_cast_int_def)
  have c2: "static_cast_int (size_t (i * size_t ?b)) = int (i * ?b)"
  proof -
    have "size_t ?b = ?b" using b31 by (simp add: size_t_def)
    moreover have "size_t (i * ?b) = i * ?b" using ib31 by (simp add: size_t_def)
    moreover have "static_cast_int (i * ?b) = int (i * ?b)"
      using ib31 by (simp add: static_cast_int_def)
    ultimately show ?thesis by simp
  qed
  have rl: "?b \<le> length rest"
    using Suc.prems(3) lt by (cases "dims - i") simp_all
  have cp: "std_copy (concat (replicate i row) @ rest) (int ?b) (int (i * ?b)) =
         Inr (concat (replicate (i + 1) row) @ drop ?b rest)"
    using std_copy_row[OF assms(1) _ Suc.prems(1) rl] by simp
  have ih: "copy_dims (i + 1) dims bins (concat (replicate (i + 1) row) @ drop ?b rest) =
        Inr (concat (replicate dims row))"
  proof (rule Suc.hyps(1))
    show "k = dims - (i + 1)" using Suc.hyps(2) by simp
    show "1 \<le> i + 1" by simp
    show "i + 1 \<le> dims" using lt by simp
    show "length (drop ?b rest) = (dims - (i + 1)) * ?b"
    proof -
      have e1: "dims - i = Suc k" using Suc.hyps(2) by simp
      have e2: "dims - (i + 1) = k" using Suc.hyps(2) by simp
      have "length rest = Suc k * ?b" using Suc.prems(3) unfolding e1 .
      then show ?thesis unfolding e2 by simp
    qed
  qed
  show ?case
    by (subst copy_dims.simps) (simp only: lt if_True c1 c2 cp sum.case ih)
qed

lemma length_uniform_row: "length (uniform_row bins) = bins + 1"
  by (simp add: uniform_row_def)

lemma nth_uniform_row: "i \<le> bins \<Longrightarrow> uniform_row bins ! i = real i / real bins"
  unfolding uniform_row_def by (subst nth_map) (simp_all del: upt_Suc)

lemma nth_concat_replicate:
  "d < dims \<Longrightarrow> j < length row \<Longrightarrow> concat (replicate dims row) ! (d * length row + j) = row ! j"
proof (induction dims arbitrary: d)
  case 0
  then show ?case by simp
next
  case (Suc dims)
  show ?case
  proof (cases d)
    case 0
    with Suc.prems show ?thesis by (simp add: nth_append)
  next
    case (Suc d')
    with Suc.prems have "d' < dims" by simp
    from Suc.IH[OF this Suc.prems(2)] Suc show ?thesis
      by (simp add: nth_append)
  qed
qed

lemma AdaptiveMap2_ctor_result:
  assumes "1 \<le> dims" "dims * (bins + 1) < 2 ^ 64" "(dims - 1) * (bins + 1) < 2 ^ 31"
  shows "AdaptiveMap2_ctor dims bins =
         Inr \<lparr>m_hist = concat (replicate dims (uniform_row bins)), m_dims = dims, m_bins = bins\<rparr>"
proof -
  let ?b = "bins + 1"
  let ?row = "uniform_row bins"
  have "1 * ?b \<le> dims * ?b" using assms(1) by (intro mult_right_mono) simp_all
  with assms(2) have b64: "?b < 2 ^ 64" by simp
  have s1: "size_t ?b = ?b" using b64 by (rule size_t_id)
  have s2: "size_t (dims * ?b) = dims * ?b" using assms(2) by (rule size_t_id)
  have le: "?b \<le> length (replicate (dims * ?b) (0::real))"
    using \<open>1 * ?b \<le> dims * ?b\<close> by simp
  have dm: "dims * ?b - ?b = (dims - 1) * ?b"
    unfolding diff_mult_distrib by simp
  have f: "fill_edges 0 ?b bins (replicate (dims * ?b) 0) =
        Inr (concat (replicate 1 ?row) @ replicate ((dims - 1) * ?b) 0)"
    using fill_edges_run[OF _ le, of 0 bins] dm by (simp add: uniform_row_def)
  have c: "copy_dims 1 dims bins (concat (replicate 1 ?row) @ replicate ((dims - 1) * ?b) 0) =
        Inr (concat (replicate dims ?row))"
    by (rule copy_dims_run[OF length_uniform_row assms(3) assms(2)]) (use assms(1) in simp_all)
  show ?thesis
    unfolding AdaptiveMap2_ctor_def s1 s2 f using c by simp
qed

text \<open>
  Claim C1, as the constructor allows it. The constructor computes the size of the vector,
  the bound of its first loop and the offsets of its copies in \<open>size_t\<close> and \<open>int\<close>
  arithmetic. When \<open>dims \<ge> 1\<close>, \<open>bins \<ge> 1\<close>, the product \<open>dims * (bins + 1)\<close> is a \<open>size_t\<close>
  value and the largest copy offset \<open>(dims - 1) * (bins + 1)\<close> is an \<open>int\<close> value, the
  constructor returns a map with \<open>dims * (bins + 1)\<close> edges in which, for every dimension
  \<open>d < dims\<close>, the edge at offset \<open>d * (bins + 1) + i\<close> is \<open>i / bins\<close>: the first edge is 0,
  the last is 1, consecutive edges increase strictly and differ by \<open>1 / bins\<close> (in exact
  arithmetic).
\<close>

theorem AdaptiveMap2_ctor_uniform:
  assumes "1 \<le> dims" and "1 \<le> bins"
    and "dims * (bins + 1) < 2 ^ 64" and "(dims - 1) * (bins + 1) < 2 ^ 31"
  shows "\<exists>s. AdaptiveMap2_ctor dims bins = Inr s \<and> m_dims s = dims \<and> m_bins s = bins \<and>
           length (m_hist s) = dims * (bins + 1) \<and>
           (\<forall>d<dims.
              (\<forall>i\<le>bins. m_hist s ! (d * (bins + 1) + i) = real i / real bins) \<and>
              m_hist s ! (d * (bins + 1)) = 0 \<and>
              m_hist s ! (d * (bins + 1) + bins) = 1 \<and>
              (\<forall>i<bins. m_hist s ! (d * (bins + 1) + i) < m_hist s ! (d * (bins + 1) + i + 1) \<and>
                        m_hist s ! (d * (bins + 1) + i + 1) - m_hist s ! (d * (bins + 1) + i)
                          = 1 / real bins))"
proof -
  define s where "s = \<lparr>m_hist = concat (replicate dims (uniform_row bins)), m_dims = dims, m_bins = bins\<rparr>"
  have r: "AdaptiveMap2_ctor dims bins = Inr s"
    unfolding s_def using assms(1,3,4) by (rule AdaptiveMap2_ctor_result)
  have hs: "m_hist s = concat (replicate dims (uniform_row bins))"
    and ds: "m_dims s = dims" and bs: "m_bins s = bins"
    by (simp_all add: s_def)
  have len: "length (m_hist s) = dims * (bins + 1)"
    unfolding hs by (simp add: length_concat_replicate length_uniform_row)
  have nth: "m_hist s ! (d * (bins + 1) + i) = real i / real bins" if "d < dims" "i \<le> bins" for d i
    unfolding hs using nth_concat_replicate[of d dims i "uniform_row bins"] that
    by (simp add: length_uniform_row nth_uniform_row)
  have bpos: "0 < real bins" using assms(2) by simp
  have edges: "(\<forall>i\<le>bins. m_hist s ! (d * (bins + 1) + i) = real i / real bins) \<and>
              m_hist s ! (d * (bins + 1)) = 0 \<and>
              m_hist s ! (d * (bins + 1) + bins) = 1 \<and>
              (\<forall>i<bins. m_hist s ! (d * (bins + 1) + i) < m_hist s ! (d * (bins + 1) + i + 1) \<and>
                        m_hist s ! (d * (bins + 1) + i + 1) - m_hist s ! (d * (bins + 1) + i)
                          = 1 / real bins)"
    if d: "d < dims" for d
  proof (intro conjI allI impI)
    fix i assume "i \<le> bins"
    then show "m_hist s ! (d * (bins + 1) + i) = real i / real bins" by (rule nth[OF d])
  next
    show "m_hist s ! (d * (bins + 1)) = 0" using nth[OF d, of 0] by simp
  next
    show "m_hist s ! (d * (bins + 1) + bins) = 1" using nth[OF d, of bins] bpos by simp
  next
    fix i assume i: "i < bins"
    have a: "m_hist s ! (d * (bins + 1) + i) = real i / real bins" using nth[OF d, of i] i by simp
    have b: "m_hist s ! (d * (bins + 1) + i + 1) = real (i + 1) / real bins"
      using nth[OF d, of "i + 1"] i by (simp add: add.assoc)
    show "m_hist s ! (d * (bins + 1) + i) < m_hist s ! (d * (bins + 1) + i + 1)"
      unfolding a b using bpos by (simp add: divide_strict_right_mono)
    show "m_hist s ! (d * (bins + 1) + i + 1) - m_hist s ! (d * (bins + 1) + i) = 1 / real bins"
      unfolding a b by (simp add: diff_divide_distrib[symmetric])
  qed
  from r ds bs len edges show ?thesis by blast
qed

theorem AdaptiveMap2_ctor_uniform_witness:
  "(1::nat) \<le> 2 \<and> (1::nat) \<le> 4 \<and> (2::nat) * (4 + 1) < 2 ^ 64 \<and> ((2::nat) - 1) * (4 + 1) < 2 ^ 31 \<and>
   (\<exists>s. AdaptiveMap2_ctor 2 4 = Inr s \<and> m_dims s = 2 \<and> m_bins s = 4 \<and> length (m_hist s) = 10 \<and>
        m_hist s ! 5 = 0 \<and> m_hist s ! 8 = 3 / 4 \<and> m_hist s ! 9 = 1 \<and>
        m_hist s ! 8 - m_hist s ! 7 = 1 / 4)"
proof -
  have h: "(1::nat) \<le> 2" "(1::nat) \<le> 4" "(2::nat) * (4 + 1) < 2 ^ 64" "((2::nat) - 1) * (4 + 1) < 2 ^ 31"
    by simp_all
  from AdaptiveMap2_ctor_uniform[OF h] obtain s where
    r: "AdaptiveMap2_ctor 2 4 = Inr s" "m_dims s = 2" "m_bins s = 4" "length (m_hist s) = 2 * (4 + 1)"
    and e: "\<forall>d<2. (\<forall>i\<le>4. m_hist s ! (d * (4 + 1) + i) = real i / real (4::nat)) \<and>
              m_hist s ! (d * (4 + 1)) = 0 \<and>
              m_hist s ! (d * (4 + 1) + 4) = 1 \<and>
              (\<forall>i<4. m_hist s ! (d * (4 + 1) + i) < m_hist s ! (d * (4 + 1) + i + 1) \<and>
                        m_hist s ! (d * (4 + 1) + i + 1) - m_hist s ! (d * (4 + 1) + i)
                          = 1 / real (4::nat))"
    by blast
  have d1: "(1::nat) < 2" by simp
  note c = e[THEN spec, of 1, THEN mp, OF d1]
  have i3: "(3::nat) \<le> 4" and i2: "(2::nat) < 4" by simp_all
  note c1 = c[THEN conjunct1, THEN spec, of 3, THEN mp, OF i3]
  note c2 = c[THEN conjunct2, THEN conjunct1]
  note c3 = c[THEN conjunct2, THEN conjunct2, THEN conjunct1]
  note c4 = c[THEN conjunct2, THEN conjunct2, THEN conjunct2, THEN spec, of 2, THEN mp, OF i2,
      THEN conjunct2]
  have "m_hist s ! 5 = 0 \<and> m_hist s ! 8 = 3 / 4 \<and> m_hist s ! 9 = 1 \<and>
        m_hist s ! 8 - m_hist s ! 7 = 1 / 4"
    using c1 c2 c3 c4 by simp
  with r h show ?thesis by simp
qed

text \<open>
  Claim C1 as stated asks only for \<open>dims \<ge> 1\<close> and \<open>bins \<ge> 1\<close>. With \<open>bins = 2 ^ 64 - 1\<close> the
  sum \<open>bins + 1\<close> wraps to 0: the vector is empty, no loop runs, and the map has no edge.
\<close>

theorem AdaptiveMap2_ctor_wraps:
  "(1::nat) \<le> 1 \<and> (1::nat) \<le> 18446744073709551615 \<and>
   AdaptiveMap2_ctor 1 18446744073709551615 =
     Inr \<lparr>m_hist = [], m_dims = 1, m_bins = 18446744073709551615\<rparr>"
  by (simp add: AdaptiveMap2_ctor_def size_t_def)

text \<open>
  The bound on the copy offsets is needed: with two dimensions of \<open>2 ^ 31 - 1\<close> bins the
  vector has \<open>2 ^ 32\<close> elements, the first loop runs, and \<open>static_cast<int>(bins + 1)\<close> is
  \<open>- 2 ^ 31\<close>, an end iterator before the beginning of the vector.
\<close>

lemma AdaptiveMap2_ctor_int_offsets:
  "AdaptiveMap2_ctor 2 2147483647 = Inl UndefinedBehaviour"
proof -
  have s1: "size_t (2147483647 + 1) = 2147483648"
    and s2: "size_t (2 * 2147483648) = 4294967296"
    by (simp_all add: size_t_def)
  have len: "2147483648 \<le> length (replicate 4294967296 (0::real))"
    unfolding length_replicate by simp
  note f = fill_edges_run[OF le0 len, of 2147483647]
  have c: "copy_dims 1 2 2147483647 h = Inl UndefinedBehaviour" for h
    by (subst copy_dims.simps) (simp add: size_t_def static_cast_int_def std_copy_def)
  show ?thesis
    by (simp only: AdaptiveMap2_ctor_def s1 s2 f sum.case c)
qed

text \<open>The example maps \<open>two_by_one\<close> and \<open>two_by_two\<close> are what the constructor returns.\<close>

lemma example_maps_constructed:
  "AdaptiveMap2_ctor 2 1 = Inr two_by_one" "AdaptiveMap2_ctor 2 2 = Inr two_by_two"
proof -
  have "AdaptiveMap2_ctor 2 1 =
        Inr \<lparr>m_hist = concat (replicate 2 (uniform_row 1)), m_dims = 2, m_bins = 1\<rparr>"
    by (rule AdaptiveMap2_ctor_result) simp_all
  then show "AdaptiveMap2_ctor 2 1 = Inr two_by_one"
    by (simp add: uniform_row_def numeral_2_eq_2)
  have "AdaptiveMap2_ctor 2 2 =
        Inr \<lparr>m_hist = concat (replicate 2 (uniform_row 2)), m_dims = 2, m_bins = 2\<rparr>"
    by (rule AdaptiveMap2_ctor_result) simp_all
  then show "AdaptiveMap2_ctor 2 2 = Inr two_by_two"
    by (simp add: uniform_row_def numeral_2_eq_2 numeral_3_eq_3)
qed

subsection \<open>The edge accessors\<close>

lemma flat_index:
  assumes "well_formed s" "d < m_dims s" "d * (m_bins s + 1) + bin + 1 < 2 ^ 64"
  shows "size_t (size_t (d * size_t (m_bins s + 1)) + bin) = d * (m_bins s + 1) + bin"
    and "size_t (size_t (size_t (d * size_t (m_bins s + 1)) + bin) + 1) = d * (m_bins s + 1) + bin + 1"
proof -
  let ?b = "m_bins s + 1"
  have "1 * ?b \<le> m_dims s * ?b" using assms(2) by (intro mult_right_mono) simp_all
  with assms(1) have b: "size_t ?b = ?b" by (simp add: well_formed_def size_t_def)
  have db: "size_t (d * ?b) = d * ?b" using assms(3) by (simp add: size_t_def)
  have i: "size_t (d * ?b + bin) = d * ?b + bin" using assms(3) by (simp add: size_t_def)
  have j: "size_t (d * ?b + bin + 1) = d * ?b + bin + 1" using assms(3) by (simp add: size_t_def)
  show "size_t (size_t (d * size_t ?b) + bin) = d * ?b + bin"
    by (simp only: b db i)
  show "size_t (size_t (size_t (d * size_t ?b) + bin) + 1) = d * ?b + bin + 1"
    by (simp only: b db i j)
qed

lemma flat_index_in_bounds:
  assumes "d < m_dims s" "bin \<le> m_bins s"
  shows "d * (m_bins s + 1) + bin < m_dims s * (m_bins s + 1)"
proof -
  have "d * (m_bins s + 1) + bin < d * (m_bins s + 1) + (m_bins s + 1)" using assms(2) by simp
  also have "\<dots> = (d + 1) * (m_bins s + 1)" by simp
  also have "\<dots> \<le> m_dims s * (m_bins s + 1)" using assms(1) by (intro mult_right_mono) simp_all
  finally show ?thesis .
qed

lemma lower_edge_general:
  assumes "well_formed s" "d < m_dims s" "d * (m_bins s + 1) + bin + 1 < 2 ^ 64"
  shows "lower_edge s d bin = subscript (m_hist s) (d * (m_bins s + 1) + bin)"
  unfolding lower_edge_def flat_index(1)[OF assms] ..

lemma upper_edge_general:
  assumes "well_formed s" "d < m_dims s" "d * (m_bins s + 1) + bin + 1 < 2 ^ 64"
  shows "upper_edge s d bin = subscript (m_hist s) (d * (m_bins s + 1) + bin + 1)"
  unfolding upper_edge_def flat_index(2)[OF assms] ..

lemma edge_no_wrap:
  assumes "well_formed s" "d < m_dims s" "bin \<le> m_bins s"
  shows "d * (m_bins s + 1) + bin + 1 < 2 ^ 64"
proof -
  have "d * (m_bins s + 1) + bin + 1 \<le> m_dims s * (m_bins s + 1)"
    using flat_index_in_bounds[OF assms(2,3)] by simp
  with assms(1) show ?thesis by (simp add: well_formed_def)
qed

lemma lower_edge_in_bounds:
  assumes "well_formed s" "d < m_dims s" "bin \<le> m_bins s"
  shows "lower_edge s d bin = Inr (m_hist s ! (d * (m_bins s + 1) + bin))"
proof -
  have "d * (m_bins s + 1) + bin < length (m_hist s)"
    using flat_index_in_bounds[OF assms(2,3)] assms(1) by (simp add: well_formed_def)
  then show ?thesis
    unfolding lower_edge_general[OF assms(1,2) edge_no_wrap[OF assms]] subscript_def by simp
qed

lemma upper_edge_in_bounds:
  assumes "well_formed s" "d < m_dims s" "bin < m_bins s"
  shows "upper_edge s d bin = Inr (m_hist s ! (d * (m_bins s + 1) + bin + 1))"
proof -
  have le: "bin \<le> m_bins s" using assms(3) by simp
  have "d * (m_bins s + 1) + (bin + 1) < length (m_hist s)"
    using flat_index_in_bounds[OF assms(2), of "bin + 1"] assms(1,3) by (simp add: well_formed_def)
  then show ?thesis
    unfolding upper_edge_general[OF assms(1,2) edge_no_wrap[OF assms(1,2) le]] subscript_def
    by (simp add: add.assoc)
qed

lemma width_in_bounds:
  assumes "well_formed s" "d < m_dims s" "bin < m_bins s"
  shows "width s d bin =
    Inr (m_hist s ! (d * (m_bins s + 1) + bin + 1) - m_hist s ! (d * (m_bins s + 1) + bin))"
proof -
  have le: "bin \<le> m_bins s" using assms(3) by simp
  show ?thesis
    unfolding width_def upper_edge_in_bounds[OF assms] lower_edge_in_bounds[OF assms(1,2) le]
    by simp
qed

lemma flat_index_wrapped:
  assumes "well_formed s" "d < m_dims s"
  shows "size_t (size_t (d * size_t (m_bins s + 1)) + bin) = (d * (m_bins s + 1) + bin) mod 2 ^ 64"
    and "size_t (size_t (size_t (d * size_t (m_bins s + 1)) + bin) + 1) =
         (d * (m_bins s + 1) + bin + 1) mod 2 ^ 64"
proof -
  let ?b = "m_bins s + 1"
  have "1 * ?b \<le> m_dims s * ?b" using assms(2) by (intro mult_right_mono) simp_all
  with assms(1) have b: "size_t ?b = ?b" by (simp add: well_formed_def size_t_def)
  have "d * ?b \<le> m_dims s * ?b" using assms(2) by (intro mult_right_mono) simp_all
  with assms(1) have db: "size_t (d * ?b) = d * ?b" by (simp add: well_formed_def size_t_def)
  show "size_t (size_t (d * size_t ?b) + bin) = (d * ?b + bin) mod 2 ^ 64"
    unfolding b db by (simp add: size_t_def)
  show "size_t (size_t (size_t (d * size_t ?b) + bin) + 1) = (d * ?b + bin + 1) mod 2 ^ 64"
    unfolding b db by (simp add: size_t_def mod_Suc_eq)
qed

text \<open>
  Claim C7, as the accessors behave. In a well-formed map, for \<open>d < m_dims\<close> and
  \<open>bin < m_bins\<close>, \<open>lower_edge\<close> reads index \<open>d * (m_bins + 1) + bin\<close> and \<open>upper_edge\<close> reads
  the next index, both inside the vector, and \<open>width\<close> is their difference. The accessors
  do not compare \<open>bin\<close> with \<open>m_bins\<close>: for every \<open>bin\<close>, \<open>lower_edge\<close> reads the index
  \<open>(d * (m_bins + 1) + bin) mod 2 ^ 64\<close> and \<open>upper_edge\<close> the index
  \<open>(d * (m_bins + 1) + bin + 1) mod 2 ^ 64\<close>, and the access is out of bounds exactly when
  that index reaches \<open>m_dims * (m_bins + 1)\<close>; when \<open>d * (m_bins + 1) + bin + 1\<close> is below
  \<open>2 ^ 64\<close> nothing wraps and the indices are \<open>d * (m_bins + 1) + bin\<close> and the next one. At
  \<open>bin = m_bins\<close>, \<open>lower_edge\<close> is still in bounds (the last edge of the dimension), and
  \<open>upper_edge\<close> is out of bounds only in the last dimension: before it, it reads the first
  edge of the next dimension.
\<close>

theorem edge_accessors:
  assumes "well_formed s" and "d < m_dims s"
  shows "(\<forall>bin<m_bins s.
            d * (m_bins s + 1) + bin + 1 < length (m_hist s) \<and>
            lower_edge s d bin = Inr (m_hist s ! (d * (m_bins s + 1) + bin)) \<and>
            upper_edge s d bin = Inr (m_hist s ! (d * (m_bins s + 1) + bin + 1)) \<and>
            (\<exists>l u. lower_edge s d bin = Inr l \<and> upper_edge s d bin = Inr u \<and>
                   width s d bin = Inr (u - l))) \<and>
         (\<forall>bin.
            lower_edge s d bin = subscript (m_hist s) ((d * (m_bins s + 1) + bin) mod 2 ^ 64) \<and>
            upper_edge s d bin = subscript (m_hist s) ((d * (m_bins s + 1) + bin + 1) mod 2 ^ 64) \<and>
            (lower_edge s d bin = Inl OutOfBounds \<longleftrightarrow>
               m_dims s * (m_bins s + 1) \<le> (d * (m_bins s + 1) + bin) mod 2 ^ 64) \<and>
            (upper_edge s d bin = Inl OutOfBounds \<longleftrightarrow>
               m_dims s * (m_bins s + 1) \<le> (d * (m_bins s + 1) + bin + 1) mod 2 ^ 64)) \<and>
         (\<forall>bin. d * (m_bins s + 1) + bin + 1 < 2 ^ 64 \<longrightarrow>
            (lower_edge s d bin = Inl OutOfBounds \<longleftrightarrow>
               m_dims s * (m_bins s + 1) \<le> d * (m_bins s + 1) + bin) \<and>
            (upper_edge s d bin = Inl OutOfBounds \<longleftrightarrow>
               m_dims s * (m_bins s + 1) \<le> d * (m_bins s + 1) + bin + 1)) \<and>
         lower_edge s d (m_bins s) = Inr (m_hist s ! (d * (m_bins s + 1) + m_bins s)) \<and>
         upper_edge s d (m_bins s) =
           (if d + 1 < m_dims s then Inr (m_hist s ! ((d + 1) * (m_bins s + 1)))
            else Inl OutOfBounds)"
proof (intro conjI allI impI)
  fix bin assume b: "bin < m_bins s"
  show "d * (m_bins s + 1) + bin + 1 < length (m_hist s)"
    using flat_index_in_bounds[OF assms(2), of "bin + 1"] assms(1) b by (simp add: well_formed_def)
  show "lower_edge s d bin = Inr (m_hist s ! (d * (m_bins s + 1) + bin))"
    using b by (intro lower_edge_in_bounds[OF assms]) simp
  show "upper_edge s d bin = Inr (m_hist s ! (d * (m_bins s + 1) + bin + 1))"
    by (rule upper_edge_in_bounds[OF assms b])
  show "\<exists>l u. lower_edge s d bin = Inr l \<and> upper_edge s d bin = Inr u \<and> width s d bin = Inr (u - l)"
    using width_in_bounds[OF assms b] upper_edge_in_bounds[OF assms b]
      lower_edge_in_bounds[OF assms, of bin] b by simp
next
  fix bin
  have len: "length (m_hist s) = m_dims s * (m_bins s + 1)"
    using assms(1) by (simp add: well_formed_def)
  show l: "lower_edge s d bin = subscript (m_hist s) ((d * (m_bins s + 1) + bin) mod 2 ^ 64)"
    unfolding lower_edge_def flat_index_wrapped(1)[OF assms] ..
  show u: "upper_edge s d bin = subscript (m_hist s) ((d * (m_bins s + 1) + bin + 1) mod 2 ^ 64)"
    unfolding upper_edge_def flat_index_wrapped(2)[OF assms] ..
  show "lower_edge s d bin = Inl OutOfBounds \<longleftrightarrow>
        m_dims s * (m_bins s + 1) \<le> (d * (m_bins s + 1) + bin) mod 2 ^ 64"
    unfolding l subscript_def len by auto
  show "upper_edge s d bin = Inl OutOfBounds \<longleftrightarrow>
        m_dims s * (m_bins s + 1) \<le> (d * (m_bins s + 1) + bin + 1) mod 2 ^ 64"
    unfolding u subscript_def len by auto
next
  fix bin assume nw: "d * (m_bins s + 1) + bin + 1 < 2 ^ 64"
  have len: "length (m_hist s) = m_dims s * (m_bins s + 1)"
    using assms(1) by (simp add: well_formed_def)
  show "lower_edge s d bin = Inl OutOfBounds \<longleftrightarrow> m_dims s * (m_bins s + 1) \<le> d * (m_bins s + 1) + bin"
    unfolding lower_edge_general[OF assms nw] subscript_def len by auto
  show "upper_edge s d bin = Inl OutOfBounds \<longleftrightarrow> m_dims s * (m_bins s + 1) \<le> d * (m_bins s + 1) + bin + 1"
    unfolding upper_edge_general[OF assms nw] subscript_def len by auto
next
  show "lower_edge s d (m_bins s) = Inr (m_hist s ! (d * (m_bins s + 1) + m_bins s))"
    by (rule lower_edge_in_bounds[OF assms]) simp
next
  have len: "length (m_hist s) = m_dims s * (m_bins s + 1)"
    using assms(1) by (simp add: well_formed_def)
  have nw: "d * (m_bins s + 1) + m_bins s + 1 < 2 ^ 64"
    by (rule edge_no_wrap[OF assms]) simp
  have e: "d * (m_bins s + 1) + m_bins s + 1 = (d + 1) * (m_bins s + 1)" by simp
  have iff: "(d + 1) * (m_bins s + 1) < m_dims s * (m_bins s + 1) \<longleftrightarrow> d + 1 < m_dims s"
    unfolding mult_less_cancel2 by simp
  show "upper_edge s d (m_bins s) =
           (if d + 1 < m_dims s then Inr (m_hist s ! ((d + 1) * (m_bins s + 1)))
            else Inl OutOfBounds)"
    unfolding upper_edge_general[OF assms nw] subscript_def len e iff ..
qed

text \<open>
  Claim C7 as stated has every access with \<open>bin \<ge> m_bins\<close> out of bounds. In the map with two
  dimensions of one bin, \<open>lower_edge(0, 1)\<close> and \<open>upper_edge(0, 1)\<close> are inside the vector: the
  former is the last edge of dimension 0, the latter the first edge of dimension 1.
\<close>

theorem edge_accessors_past_bins:
  "well_formed two_by_one \<and> (0::nat) < m_dims two_by_one \<and> m_bins two_by_one \<le> (1::nat) \<and>
   lower_edge two_by_one 0 1 = Inr 1 \<and> upper_edge two_by_one 0 1 = Inr 0"
  by (simp add: well_formed_def lower_edge_def upper_edge_def subscript_def size_t_def)

theorem edge_accessors_witness:
  "well_formed two_by_one \<and> (1::nat) < m_dims two_by_one \<and> (0::nat) < m_bins two_by_one \<and>
   lower_edge two_by_one 1 0 = Inr 0 \<and> upper_edge two_by_one 1 0 = Inr 1 \<and>
   width two_by_one 1 0 = Inr 1 \<and>
   lower_edge two_by_one 1 1 = Inr 1 \<and> upper_edge two_by_one 1 1 = Inl OutOfBounds \<and>
   upper_edge two_by_one 1 18446744073709551613 = Inr 0 \<and>
   lower_edge two_by_one 1 5 = Inl OutOfBounds"
proof -
  have wf: "well_formed two_by_one" and d: "(1::nat) < m_dims two_by_one"
    and b: "(0::nat) < m_bins two_by_one"
    by (simp_all add: well_formed_def)
  note t = edge_accessors[OF wf d]
  note t1 = t[THEN conjunct1, THEN spec, of 0, THEN mp, OF b]
  note t2 = t[THEN conjunct2, THEN conjunct1]
  note t4 = t[THEN conjunct2, THEN conjunct2, THEN conjunct2, THEN conjunct1]
  note t5 = t[THEN conjunct2, THEN conjunct2, THEN conjunct2, THEN conjunct2]
  have l: "lower_edge two_by_one 1 0 = Inr 0" and u: "upper_edge two_by_one 1 0 = Inr 1"
    using t1 by simp_all
  from t1 obtain l' u' where "lower_edge two_by_one 1 0 = Inr l'" "upper_edge two_by_one 1 0 = Inr u'"
    "width two_by_one 1 0 = Inr (u' - l')" by blast
  with l u have w: "width two_by_one 1 0 = Inr 1" by simp
  have l1: "lower_edge two_by_one 1 1 = Inr 1" using t4 by simp
  have u1: "upper_edge two_by_one 1 1 = Inl OutOfBounds" using t5 by simp
  have uw: "upper_edge two_by_one 1 18446744073709551613 = Inr 0"
    using t2[THEN spec, of 18446744073709551613, THEN conjunct2, THEN conjunct1]
    by (simp add: subscript_def)
  have l5: "lower_edge two_by_one 1 5 = Inl OutOfBounds"
    using t2[THEN spec, of 5, THEN conjunct2, THEN conjunct2, THEN conjunct1]
    by simp
  from wf d b l u w l1 u1 uw l5 show ?thesis by simp
qed

subsection \<open>The setters of Nucleus\<close>

text \<open>
  Claim C10: each of \<open>SetBindingEnergy\<close>, \<open>SetFermiMomentum\<close> and \<open>SetPotential\<close> changes the
  field its getter returns and leaves every other member of the nucleus as it was.
\<close>

theorem Nucleus_setters_frame:
  "BindingEnergy (SetBindingEnergy e n) = e \<and>
   FermiMomentum (SetBindingEnergy e n) = FermiMomentum n \<and>
   PotentialEnergy (SetBindingEnergy e n) = PotentialEnergy n \<and>
   Radius (SetBindingEnergy e n) = Radius n \<and>
   Nucleons (SetBindingEnergy e n) = Nucleons n \<and>
   Protons (SetBindingEnergy e n) = Protons n \<and>
   Neutrons (SetBindingEnergy e n) = Neutrons n \<and>
   density (SetBindingEnergy e n) = density n \<and>
   rng (SetBindingEnergy e n) = rng n \<and>
   FermiMomentum (SetFermiMomentum e n) = e \<and>
   BindingEnergy (SetFermiMomentum e n) = BindingEnergy n \<and>
   PotentialEnergy (SetFermiMomentum e n) = PotentialEnergy n \<and>
   Radius (SetFermiMomentum e n) = Radius n \<and>
   Nucleons (SetFermiMomentum e n) = Nucleons n \<and>
   Protons (SetFermiMomentum e n) = Protons n \<and>
   Neutrons (SetFermiMomentum e n) = Neutrons n \<and>
   density (SetFermiMomentum e n) = density n \<and>
   rng (SetFermiMomentum e n) = rng n \<and>
   PotentialEnergy (SetPotential e n) = e \<and>
   BindingEnergy (SetPotential e n) = BindingEnergy n \<and>
   FermiMomentum (SetPotential e n) = FermiMomentum n \<and>
   Radius (SetPotential e n) = Radius n \<and>
   Nucleons (SetPotential e n) = Nucleons n \<and>
   Protons (SetPotential e n) = Protons n \<and>
   Neutrons (SetPotential e n) = Neutrons n \<and>
   density (SetPotential e n) = density n \<and>
   rng (SetPotential e n) = rng n"
  by (simp add: SetBindingEnergy_def SetFermiMomentum_def SetPotential_def BindingEnergy_def
      FermiMomentum_def PotentialEnergy_def Radius_def Nucleons_def Protons_def Neutrons_def)

theorem Nucleus_setters_frame_witness:
  "BindingEnergy (SetBindingEnergy 8 carbon) = 8 \<and>
   FermiMomentum (SetBindingEnergy 8 carbon) = 225 \<and>
   PotentialEnergy (SetBindingEnergy 8 carbon) = 30 \<and>
   Radius (SetBindingEnergy 8 carbon) = 3 \<and>
   Nucleons (SetBindingEnergy 8 carbon) = [True, False] \<and>
   FermiMomentum (SetFermiMomentum 250 carbon) = 250 \<and>
   BindingEnergy (SetFermiMomentum 250 carbon) = 10 \<and>
   PotentialEnergy (SetPotential 40 carbon) = 40 \<and>
   BindingEnergy (SetPotential 40 carbon) = 10"
proof -
  have "BindingEnergy carbon = 10" "FermiMomentum carbon = 225" "PotentialEnergy carbon = 30"
    "Radius carbon = 3" "Nucleons carbon = [True, False]"
    by (simp_all add: BindingEnergy_def FermiMomentum_def PotentialEnergy_def Radius_def
        Nucleons_def)
  then show ?thesis
    using Nucleus_setters_frame[of 8 carbon] Nucleus_setters_frame[of 250 carbon]
      Nucleus_setters_frame[of 40 carbon]
    by simp
qed

subsection \<open>The dipole form factor\<close>

text \<open>
  Claim C2: in \<open>Dipole::operator()\<close> the second assignment to \<open>Gmp\<close> replaces the first. The
  returned \<open>Gmp\<close> is \<open>muN * Gep\<close>, and the result is the same whatever \<open>muP\<close> is.
\<close>

theorem Dipole_Gmp_overwritten:
  "Gmp (Dipole_call mp GeV d Q2) = muN d * Gep (Dipole_call mp GeV d Q2) \<and>
   Gmp (Dipole_call mp GeV (d\<lparr>muP := p\<rparr>) Q2) = Gmp (Dipole_call mp GeV d Q2) \<and>
   Dipole_call mp GeV (d\<lparr>muP := p\<rparr>) Q2 = Dipole_call mp GeV d Q2"
  by (simp add: Dipole_call_def Fill_def exact_def Let_def)

theorem Dipole_Gmp_overwritten_witness:
  "Gep (Dipole_call 1 1 sample_dipole 1) = 1 / 4 \<and>
   Gmp (Dipole_call 1 1 sample_dipole 1) = - 2 * (1 / 4) \<and>
   Gmp (Dipole_call 1 1 (sample_dipole\<lparr>muP := 7\<rparr>) 1) = - 2 * (1 / 4)"
proof -
  have g: "Gep (Dipole_call 1 1 sample_dipole 1) = 1 / 4"
    by (simp add: Dipole_call_def Fill_def exact_def Let_def Values_init_def power2_eq_square)
  note t = Dipole_Gmp_overwritten[of 1 1 sample_dipole 1 7]
  have "Gmp (Dipole_call 1 1 sample_dipole 1) = - 2 * (1 / 4)"
    using t g by simp
  moreover have "Gmp (Dipole_call 1 1 (sample_dipole\<lparr>muP := 7\<rparr>) 1) = Gmp (Dipole_call 1 1 sample_dipole 1)"
    using t by blast
  ultimately show ?thesis using g by simp
qed

subsection \<open>FormFactor::Build\<close>

lemma Build_recognised:
  assumes "as_string (yaml_get (Some node) ''FormFactor'') = Inr name"
  shows "name = ''Dipole'' \<Longrightarrow>
           Build conv node = bind (Dipole_ctor conv (yaml_get (Some node) ''Dipole'')) (\<lambda>d. Inr (Some (FF_Dipole d)))"
    and "name = ''Kelly'' \<Longrightarrow>
           Build conv node = bind (Kelly_ctor conv (yaml_get (Some node) ''Kelly'')) (\<lambda>k. Inr (Some (FF_Kelly k)))"
    and "name = ''BBBA'' \<Longrightarrow>
           Build conv node = bind (BBBA_ctor conv (yaml_get (Some node) ''BBBA'')) (\<lambda>b. Inr (Some (FF_BBBA b)))"
    and "name = ''ArringtonHill'' \<Longrightarrow>
           Build conv node = bind (ArringtonHill_ctor conv (yaml_get (Some node) ''ArringtonHill''))
              (\<lambda>a. Inr (Some (FF_ArringtonHill a)))"
    and "name \<notin> {''Dipole'', ''Kelly'', ''BBBA'', ''ArringtonHill''} \<Longrightarrow>
           Build conv node = Inl (RuntimeError (''Invalid Form Factor: '' @ name))"
  using assms by (simp_all add: Build_def bind_def)

lemma bind_Inr_iff: "(\<exists>b. bind m f = Inr b) \<longleftrightarrow> (\<exists>a. m = Inr a \<and> (\<exists>b. f a = Inr b))"
  by (cases m) (simp_all add: bind_def)

lemma bind_Inl_iff: "bind m f = Inl e \<longleftrightarrow> m = Inl e \<or> (\<exists>a. m = Inr a \<and> f a = Inl e)"
  by (cases m) (simp_all add: bind_def)

lemma as_double_Inr_iff: "(\<exists>r. as_double conv n = Inr r) \<longleftrightarrow> is_double conv n"
  by (cases "(conv, n)" rule: as_double.cases) (auto split: option.splits)

lemma as_double_Inl: "as_double conv n = Inl e \<Longrightarrow> e = YamlException"
  by (cases "(conv, n)" rule: as_double.cases) (auto split: option.splits)

lemma as_doubles_Inr_iff:
  "(\<exists>rs. as_doubles conv ys = Inr rs) \<longleftrightarrow> list_all (\<lambda>y. is_double conv (Some y)) ys"
proof (induction ys)
  case Nil
  show ?case by simp
next
  case (Cons y ys)
  have "(\<exists>rs. as_doubles conv (y # ys) = Inr rs) \<longleftrightarrow>
        (\<exists>r. as_double conv (Some y) = Inr r) \<and> (\<exists>rs. as_doubles conv ys = Inr rs)"
    by (auto split: sum.splits)
  then show ?case
    unfolding as_double_Inr_iff Cons.IH by simp
qed

lemma as_doubles_Inl: "as_doubles conv ys = Inl e \<Longrightarrow> e = YamlException"
  by (induction ys) (auto split: sum.splits dest: as_double_Inl)

lemma as_array_Inr_iff: "(\<exists>rs. as_array conv k n = Inr rs) \<longleftrightarrow> is_array conv k n"
  by (cases "(conv, k, n)" rule: as_array.cases) (simp_all add: as_doubles_Inr_iff)

lemma as_array_Inl: "as_array conv k n = Inl e \<Longrightarrow> e = YamlException"
  by (cases "(conv, k, n)" rule: as_array.cases) (auto split: if_splits dest: as_doubles_Inl)

lemma Dipole_ctor_Inr_iff: "(\<exists>d. Dipole_ctor conv c = Inr d) \<longleftrightarrow> Dipole_complete conv c"
  by (simp add: Dipole_ctor_def Dipole_complete_def bind_Inr_iff as_double_Inr_iff)

lemma Dipole_ctor_Inl: "Dipole_ctor conv c = Inl e \<Longrightarrow> e = YamlException"
  by (auto simp: Dipole_ctor_def bind_Inl_iff dest: as_double_Inl)

lemma Kelly_ctor_Inr_iff: "(\<exists>k. Kelly_ctor conv c = Inr k) \<longleftrightarrow> Kelly_complete conv c"
  by (simp add: Kelly_ctor_def Kelly_complete_def bind_Inr_iff as_double_Inr_iff as_array_Inr_iff)

lemma Kelly_ctor_Inl: "Kelly_ctor conv c = Inl e \<Longrightarrow> e = YamlException"
  by (auto simp: Kelly_ctor_def bind_Inl_iff dest: as_double_Inl as_array_Inl)

lemma BBBA_ctor_Inr_iff: "(\<exists>b. BBBA_ctor conv c = Inr b) \<longleftrightarrow> BBBA_complete conv c"
  by (simp add: BBBA_ctor_def BBBA_complete_def bind_Inr_iff as_double_Inr_iff as_array_Inr_iff)

lemma BBBA_ctor_Inl: "BBBA_ctor conv c = Inl e \<Longrightarrow> e = YamlException"
  by (auto simp: BBBA_ctor_def bind_Inl_iff dest: as_double_Inl as_array_Inl)

lemma ArringtonHill_ctor_Inr_iff:
  "(\<exists>a. ArringtonHill_ctor conv c = Inr a) \<longleftrightarrow> ArringtonHill_complete conv c"
  by (simp add: ArringtonHill_ctor_def ArringtonHill_complete_def bind_Inr_iff as_double_Inr_iff
      as_array_Inr_iff)

lemma ArringtonHill_ctor_Inl: "ArringtonHill_ctor conv c = Inl e \<Longrightarrow> e = YamlException"
  by (auto simp: ArringtonHill_ctor_def bind_Inl_iff dest: as_double_Inl as_array_Inl)

lemma ctor_dispatch:
  assumes "(\<exists>x. ctor = Inr x) \<longleftrightarrow> ok" "ctor = Inl YamlException \<or> (\<exists>x. ctor = Inr x)"
  shows "(case ctor of Inl e \<Rightarrow> bind ctor (\<lambda>x. Inr (Some (F x))) = Inl e
          | Inr x \<Rightarrow> bind ctor (\<lambda>x. Inr (Some (F x))) = Inr (Some (F x))) \<and>
         (ok \<longrightarrow> (\<exists>x. bind ctor (\<lambda>x. Inr (Some (F x))) = Inr (Some (F x)))) \<and>
         (\<not> ok \<longrightarrow> bind ctor (\<lambda>x. Inr (Some (F x))) = Inl YamlException)"
proof (cases ctor)
  case (Inl e)
  with assms(2) have "e = YamlException" by simp
  with Inl assms(1) show ?thesis by (auto simp: bind_def)
next
  case (Inr x)
  with assms(1) show ?thesis by (auto simp: bind_def)
qed

lemma Dipole_ctor_cases:
  "Dipole_ctor conv c = Inl YamlException \<or> (\<exists>d. Dipole_ctor conv c = Inr d)"
  using Dipole_ctor_Inl[of conv c] by (cases "Dipole_ctor conv c") auto

lemma Kelly_ctor_cases:
  "Kelly_ctor conv c = Inl YamlException \<or> (\<exists>k. Kelly_ctor conv c = Inr k)"
  using Kelly_ctor_Inl[of conv c] by (cases "Kelly_ctor conv c") auto

lemma BBBA_ctor_cases:
  "BBBA_ctor conv c = Inl YamlException \<or> (\<exists>b. BBBA_ctor conv c = Inr b)"
  using BBBA_ctor_Inl[of conv c] by (cases "BBBA_ctor conv c") auto

lemma ArringtonHill_ctor_cases:
  "ArringtonHill_ctor conv c = Inl YamlException \<or> (\<exists>a. ArringtonHill_ctor conv c = Inr a)"
  using ArringtonHill_ctor_Inl[of conv c] by (cases "ArringtonHill_ctor conv c") auto

text \<open>
  Claim C9, as \<open>Build\<close> behaves. \<open>Build\<close> never returns a null pointer. When the
  \<open>FormFactor\<close> entry is one of the four recognised names, \<open>Build\<close> runs the constructor of
  that class on the entry of the same name and returns what it returns: an object of that
  class when every parameter the constructor reads is present and converts, and the
  exception of the conversion when a parameter is missing or does not convert. For any
  other name \<open>Build\<close> throws the runtime error \<open>Invalid Form Factor: name\<close>.
\<close>

theorem Build_result:
  "Build conv node \<noteq> Inr None \<and>
   (as_string (yaml_get (Some node) ''FormFactor'') = Inr name \<longrightarrow>
      (name = ''Dipole'' \<longrightarrow>
         (case Dipole_ctor conv (yaml_get (Some node) ''Dipole'') of
            Inl e \<Rightarrow> Build conv node = Inl e
          | Inr d \<Rightarrow> Build conv node = Inr (Some (FF_Dipole d))) \<and>
         (Dipole_complete conv (yaml_get (Some node) ''Dipole'') \<longrightarrow>
            (\<exists>d. Build conv node = Inr (Some (FF_Dipole d)))) \<and>
         (\<not> Dipole_complete conv (yaml_get (Some node) ''Dipole'') \<longrightarrow>
            Build conv node = Inl YamlException)) \<and>
      (name = ''Kelly'' \<longrightarrow>
         (case Kelly_ctor conv (yaml_get (Some node) ''Kelly'') of
            Inl e \<Rightarrow> Build conv node = Inl e
          | Inr k \<Rightarrow> Build conv node = Inr (Some (FF_Kelly k))) \<and>
         (Kelly_complete conv (yaml_get (Some node) ''Kelly'') \<longrightarrow>
            (\<exists>k. Build conv node = Inr (Some (FF_Kelly k)))) \<and>
         (\<not> Kelly_complete conv (yaml_get (Some node) ''Kelly'') \<longrightarrow>
            Build conv node = Inl YamlException)) \<and>
      (name = ''BBBA'' \<longrightarrow>
         (case BBBA_ctor conv (yaml_get (Some node) ''BBBA'') of
            Inl e \<Rightarrow> Build conv node = Inl e
          | Inr b \<Rightarrow> Build conv node = Inr (Some (FF_BBBA b))) \<and>
         (BBBA_complete conv (yaml_get (Some node) ''BBBA'') \<longrightarrow>
            (\<exists>b. Build conv node = Inr (Some (FF_BBBA b)))) \<and>
         (\<not> BBBA_complete conv (yaml_get (Some node) ''BBBA'') \<longrightarrow>
            Build conv node = Inl YamlException)) \<and>
      (name = ''ArringtonHill'' \<longrightarrow>
         (case ArringtonHill_ctor conv (yaml_get (Some node) ''ArringtonHill'') of
            Inl e \<Rightarrow> Build conv node = Inl e
          | Inr a \<Rightarrow> Build conv node = Inr (Some (FF_ArringtonHill a))) \<and>
         (ArringtonHill_complete conv (yaml_get (Some node) ''ArringtonHill'') \<longrightarrow>
            (\<exists>a. Build conv node = Inr (Some (FF_ArringtonHill a)))) \<and>
         (\<not> ArringtonHill_complete conv (yaml_get (Some node) ''ArringtonHill'') \<longrightarrow>
            Build conv node = Inl YamlException)) \<and>
      (name \<notin> {''Dipole'', ''Kelly'', ''BBBA'', ''ArringtonHill''} \<longrightarrow>
         Build conv node = Inl (RuntimeError (''Invalid Form Factor: '' @ name))) \<and>
      (\<forall>ff. Build conv node = Inr (Some ff) \<longrightarrow> class_name ff = name))"
proof (intro conjI impI allI)
  show "Build conv node \<noteq> Inr None"
    by (auto simp: Build_def bind_def split: sum.splits)
next
  assume n: "as_string (yaml_get (Some node) ''FormFactor'') = Inr name" "name = ''Dipole''"
  note d = ctor_dispatch[OF Dipole_ctor_Inr_iff[of conv "yaml_get (Some node) ''Dipole''"]
      Dipole_ctor_cases, where F = FF_Dipole,
      folded Build_recognised(1)[OF n]]
  show "case Dipole_ctor conv (yaml_get (Some node) ''Dipole'') of
            Inl e \<Rightarrow> Build conv node = Inl e
          | Inr d \<Rightarrow> Build conv node = Inr (Some (FF_Dipole d))"
    using d by blast
  {
    assume "Dipole_complete conv (yaml_get (Some node) ''Dipole'')"
    then show "\<exists>d. Build conv node = Inr (Some (FF_Dipole d))" using d by blast
  }
  {
    assume "\<not> Dipole_complete conv (yaml_get (Some node) ''Dipole'')"
    then show "Build conv node = Inl YamlException" using d by blast
  }
next
  assume n: "as_string (yaml_get (Some node) ''FormFactor'') = Inr name" "name = ''Kelly''"
  note d = ctor_dispatch[OF Kelly_ctor_Inr_iff[of conv "yaml_get (Some node) ''Kelly''"]
      Kelly_ctor_cases, where F = FF_Kelly,
      folded Build_recognised(2)[OF n]]
  show "case Kelly_ctor conv (yaml_get (Some node) ''Kelly'') of
            Inl e \<Rightarrow> Build conv node = Inl e
          | Inr k \<Rightarrow> Build conv node = Inr (Some (FF_Kelly k))"
    using d by blast
  {
    assume "Kelly_complete conv (yaml_get (Some node) ''Kelly'')"
    then show "\<exists>k. Build conv node = Inr (Some (FF_Kelly k))" using d by blast
  }
  {
    assume "\<not> Kelly_complete conv (yaml_get (Some node) ''Kelly'')"
    then show "Build conv node = Inl YamlException" using d by blast
  }
next
  assume n: "as_string (yaml_get (Some node) ''FormFactor'') = Inr name" "name = ''BBBA''"
  note d = ctor_dispatch[OF BBBA_ctor_Inr_iff[of conv "yaml_get (Some node) ''BBBA''"]
      BBBA_ctor_cases, where F = FF_BBBA,
      folded Build_recognised(3)[OF n]]
  show "case BBBA_ctor conv (yaml_get (Some node) ''BBBA'') of
            Inl e \<Rightarrow> Build conv node = Inl e
          | Inr b \<Rightarrow> Build conv node = Inr (Some (FF_BBBA b))"
    using d by blast
  {
    assume "BBBA_complete conv (yaml_get (Some node) ''BBBA'')"
    then show "\<exists>b. Build conv node = Inr (Some (FF_BBBA b))" using d by blast
  }
  {
    assume "\<not> BBBA_complete conv (yaml_get (Some node) ''BBBA'')"
    then show "Build conv node = Inl YamlException" using d by blast
  }
next
  assume n: "as_string (yaml_get (Some node) ''FormFactor'') = Inr name" "name = ''ArringtonHill''"
  note d = ctor_dispatch[OF ArringtonHill_ctor_Inr_iff[of conv "yaml_get (Some node) ''ArringtonHill''"]
      ArringtonHill_ctor_cases, where F = FF_ArringtonHill,
      folded Build_recognised(4)[OF n]]
  show "case ArringtonHill_ctor conv (yaml_get (Some node) ''ArringtonHill'') of
            Inl e \<Rightarrow> Build conv node = Inl e
          | Inr a \<Rightarrow> Build conv node = Inr (Some (FF_ArringtonHill a))"
    using d by blast
  {
    assume "ArringtonHill_complete conv (yaml_get (Some node) ''ArringtonHill'')"
    then show "\<exists>a. Build conv node = Inr (Some (FF_ArringtonHill a))" using d by blast
  }
  {
    assume "\<not> ArringtonHill_complete conv (yaml_get (Some node) ''ArringtonHill'')"
    then show "Build conv node = Inl YamlException" using d by blast
  }
next
  assume "as_string (yaml_get (Some node) ''FormFactor'') = Inr name"
    "name \<notin> {''Dipole'', ''Kelly'', ''BBBA'', ''ArringtonHill''}"
  then show "Build conv node = Inl (RuntimeError (''Invalid Form Factor: '' @ name))"
    by (rule Build_recognised(5))
next
  fix ff
  assume n: "as_string (yaml_get (Some node) ''FormFactor'') = Inr name"
    and b: "Build conv node = Inr (Some ff)"
  show "class_name ff = name"
    using b unfolding Build_def n bind_def
    by (auto split: if_splits sum.splits)
qed

theorem Build_result_witness:
  "as_string (yaml_get (Some dipole_config) ''FormFactor'') = Inr ''Dipole'' \<and>
   Dipole_complete read_one (yaml_get (Some dipole_config) ''Dipole'') \<and>
   Build read_one dipole_config = Inr (Some (FF_Dipole \<lparr>lambda = 1, MA = 1, muP = 1, muN = 1\<rparr>)) \<and>
   as_string (yaml_get (Some unreadable_dipole_config) ''FormFactor'') = Inr ''Dipole'' \<and>
   \<not> Dipole_complete read_one (yaml_get (Some unreadable_dipole_config) ''Dipole'') \<and>
   Build read_one unreadable_dipole_config = Inl YamlException \<and>
   as_string (yaml_get (Some unknown_config) ''FormFactor'') = Inr ''Sachs'' \<and>
   ''Sachs'' \<notin> {''Dipole'', ''Kelly'', ''BBBA'', ''ArringtonHill''} \<and>
   Build read_one unknown_config = Inl (RuntimeError ''Invalid Form Factor: Sachs'')"
proof -
  have n: "as_string (yaml_get (Some dipole_config) ''FormFactor'') = Inr ''Dipole''"
    by simp
  have k: "Dipole_complete read_one (yaml_get (Some dipole_config) ''Dipole'')"
    by (simp add: Dipole_complete_def read_one_def)
  have c: "Dipole_ctor read_one (yaml_get (Some dipole_config) ''Dipole'') =
        Inr \<lparr>lambda = 1, MA = 1, muP = 1, muN = 1\<rparr>"
    by (simp add: Dipole_ctor_def bind_def read_one_def)
  note t = Build_result[of read_one dipole_config "''Dipole''", THEN conjunct2, THEN mp, OF n,
      THEN conjunct1, THEN mp, OF refl, THEN conjunct1]
  have b: "Build read_one dipole_config = Inr (Some (FF_Dipole \<lparr>lambda = 1, MA = 1, muP = 1, muN = 1\<rparr>))"
    using t unfolding c by simp
  have n2: "as_string (yaml_get (Some unreadable_dipole_config) ''FormFactor'') = Inr ''Dipole''"
    by simp
  have k2: "\<not> Dipole_complete read_one (yaml_get (Some unreadable_dipole_config) ''Dipole'')"
    by (simp add: Dipole_complete_def read_one_def)
  note t2 = Build_result[of read_one unreadable_dipole_config "''Dipole''", THEN conjunct2, THEN mp,
      OF n2, THEN conjunct1, THEN mp, OF refl, THEN conjunct2, THEN conjunct2, THEN mp, OF k2]
  have m: "as_string (yaml_get (Some unknown_config) ''FormFactor'') = Inr ''Sachs''"
    by simp
  have u: "''Sachs'' \<notin> {''Dipole'', ''Kelly'', ''BBBA'', ''ArringtonHill''}"
    by simp
  note t' = Build_result[of read_one unknown_config "''Sachs''", THEN conjunct2, THEN mp, OF m,
      THEN conjunct2, THEN conjunct2, THEN conjunct2, THEN conjunct2, THEN conjunct1, THEN mp, OF u]
  have "Build read_one unknown_config = Inl (RuntimeError ''Invalid Form Factor: Sachs'')"
    using t' by simp
  with n k b n2 k2 t2 m u show ?thesis by blast
qed

text \<open>
  Claim C9 as stated has \<open>Build\<close> return an object for every configuration that names one
  of the four classes. A configuration that names \<open>Dipole\<close> and gives no \<open>Dipole\<close> entry makes
  the constructor's first conversion throw, and \<open>Build\<close> lets the exception through.
\<close>

theorem Build_missing_parameters:
  "as_string (yaml_get (Some bare_dipole_config) ''FormFactor'') = Inr ''Dipole'' \<and>
   Build read_one bare_dipole_config = Inl YamlException"
  by (simp add: Build_def Dipole_ctor_def bind_def)

subsection \<open>Serialization\<close>

lemma values_of_map_Value: "values_of (map Value vs) = Some vs"
  by (induction vs) simp_all

lemma values_of_Some: "values_of items = Some vs \<Longrightarrow> items = map Value vs"
proof (induction items arbitrary: vs)
  case Nil
  then show ?case by simp
next
  case (Cons i items)
  then show ?case by (cases i) (auto split: option.splits)
qed

lemma Deserialize_Inr:
  assumes "Deserialize items = Inr s"
  shows "items = Serialize s \<and> length (m_hist s) = m_dims s * (m_bins s + 1)"
proof -
  from assms obtain dims bins rest where i: "items = Count dims # Count bins # rest"
    by (cases items rule: Deserialize.cases) simp_all
  from assms obtain vs where v: "values_of rest = Some vs"
    unfolding i by (cases "values_of rest") simp_all
  from assms have l: "length vs = dims * (bins + 1)"
    and s: "s = \<lparr>m_hist = vs, m_dims = dims, m_bins = bins\<rparr>"
    unfolding i using v by (simp_all split: if_splits)
  show ?thesis
    unfolding i s using l values_of_Some[OF v] by (simp add: Serialize_def)
qed

text \<open>
  Claim C6. A map whose vector holds \<open>m_dims * (m_bins + 1)\<close> edges is restored by
  \<open>Deserialize\<close> from what \<open>Serialize\<close> wrote: the same dimension count, bin count and
  edges. A stream whose header declares counts that do not match the number of items
  after it is rejected with \<open>CorruptState\<close>, and any stream that \<open>Deserialize\<close> accepts is
  the serialization of the map it returns.
\<close>

theorem Serialize_Deserialize_roundtrip:
  "(length (m_hist s) = m_dims s * (m_bins s + 1) \<longrightarrow> Deserialize (Serialize s) = Inr s) \<and>
   (length rest \<noteq> dims * (bins + 1) \<longrightarrow>
      Deserialize (Count dims # Count bins # rest) = Inl CorruptState) \<and>
   (Deserialize items = Inr s' \<longrightarrow>
      items = Serialize s' \<and> length (m_hist s') = m_dims s' * (m_bins s' + 1))"
proof (intro conjI impI)
  assume "length (m_hist s) = m_dims s * (m_bins s + 1)"
  then show "Deserialize (Serialize s) = Inr s"
    by (simp add: Serialize_def values_of_map_Value)
next
  assume n: "length rest \<noteq> dims * (bins + 1)"
  show "Deserialize (Count dims # Count bins # rest) = Inl CorruptState"
  proof (cases "values_of rest")
    case None
    then show ?thesis by simp
  next
    case (Some vs)
    from values_of_Some[OF this] have "length vs = length rest" by simp
    with n Some show ?thesis by simp
  qed
next
  assume "Deserialize items = Inr s'"
  then show "items = Serialize s'" and "length (m_hist s') = m_dims s' * (m_bins s' + 1)"
    using Deserialize_Inr by blast+
qed

theorem Serialize_Deserialize_roundtrip_witness:
  "length (m_hist two_by_one) = m_dims two_by_one * (m_bins two_by_one + 1) \<and>
   Serialize two_by_one = [Count 2, Count 1, Value 0, Value 1, Value 0, Value 1] \<and>
   Deserialize [Count 2, Count 1, Value 0, Value 1, Value 0, Value 1] = Inr two_by_one \<and>
   length [Value 0, Value 1, Value 0] \<noteq> (2::nat) * (1 + 1) \<and>
   Deserialize [Count 2, Count 1, Value 0, Value 1, Value 0] = Inl CorruptState"
proof -
  have l: "length (m_hist two_by_one) = m_dims two_by_one * (m_bins two_by_one + 1)"
    by simp
  have e: "Serialize two_by_one = [Count 2, Count 1, Value 0, Value 1, Value 0, Value 1]"
    by (simp add: Serialize_def)
  have n: "length [Value 0, Value 1, Value 0] \<noteq> (2::nat) * (1 + 1)"
    by simp
  note t = Serialize_Deserialize_roundtrip[of two_by_one "[Value 0, Value 1, Value 0]" 2 1]
  have "Deserialize (Serialize two_by_one) = Inr two_by_one"
    using t l by blast
  moreover have "Deserialize [Count 2, Count 1, Value 0, Value 1, Value 0] = Inl CorruptState"
    using t n by blast
  ultimately show ?thesis
    using l e n by simp
qed

subsection \<open>Mapping through a uniform grid\<close>

lemma uniform_grid_length:
  "uniform_grid s \<Longrightarrow> length (m_hist s) = m_dims s * (m_bins s + 1)"
  by (simp add: uniform_grid_def length_concat_replicate length_uniform_row)

lemma uniform_grid_nth:
  assumes "uniform_grid s" "d < m_dims s" "i \<le> m_bins s"
  shows "m_hist s ! (d * (m_bins s + 1) + i) = real i / real (m_bins s)"
proof -
  have "concat (replicate (m_dims s) (uniform_row (m_bins s))) !
          (d * length (uniform_row (m_bins s)) + i) = uniform_row (m_bins s) ! i"
    using assms(2,3) by (intro nth_concat_replicate) (simp_all add: length_uniform_row)
  then show ?thesis
    using assms(1,3) by (simp add: uniform_grid_def length_uniform_row nth_uniform_row)
qed

lemma bin_of_coordinate:
  fixes x :: real
  assumes "0 \<le> x" "x < 1" "1 \<le> bins"
  shows "nat \<lfloor>x * real bins\<rfloor> < bins" and "real (nat \<lfloor>x * real bins\<rfloor>) = of_int \<lfloor>x * real bins\<rfloor>"
proof -
  have y0: "0 \<le> x * real bins" using assms(1) by simp
  have y1: "x * real bins < real bins" using assms(2,3) by simp
  have f0: "0 \<le> \<lfloor>x * real bins\<rfloor>" using y0 by simp
  have "\<lfloor>x * real bins\<rfloor> < int bins" using y1 by (simp add: floor_less_iff)
  then show "nat \<lfloor>x * real bins\<rfloor> < bins" unfolding nat_less_iff[OF f0] .
  show "real (nat \<lfloor>x * real bins\<rfloor>) = of_int \<lfloor>x * real bins\<rfloor>" using f0 by simp
qed

lemma uniform_interpolation:
  fixes x :: real
  assumes "1 \<le> bins"
  shows "real b / real bins + (x * real bins - real b) * (real (b + 1) / real bins - real b / real bins) = x"
    and "real bins * (real (b + 1) / real bins - real b / real bins) * 1 = 1"
proof -
  have p: "real bins \<noteq> 0" using assms by simp
  have w: "real (b + 1) / real bins - real b / real bins = 1 / real bins"
    by (simp add: diff_divide_distrib[symmetric])
  show "real b / real bins + (x * real bins - real b) * (real (b + 1) / real bins - real b / real bins) = x"
    unfolding w using p by (simp add: field_simps)
  show "real bins * (real (b + 1) / real bins - real b / real bins) * 1 = 1"
    unfolding w using p by simp
qed

lemma map_coords_uniform:
  assumes "uniform_grid s" "1 \<le> m_bins s" "m_dims s * (m_bins s + 1) < 2 ^ 64"
  shows "d + length xs = m_dims s \<Longrightarrow> \<forall>x\<in>set xs. 0 \<le> x \<and> x < 1 \<Longrightarrow>
         map_coords s d xs = Inr (xs, 1)"
proof (induction xs arbitrary: d)
  case Nil
  show ?case by simp
next
  case (Cons x xs)
  have wf: "well_formed s"
    using uniform_grid_length[OF assms(1)] assms(3) by (simp add: well_formed_def)
  have d: "d < m_dims s" using Cons.prems(1) by simp
  have x: "0 \<le> x" "x < 1" using Cons.prems(2) by simp_all
  let ?b = "nat \<lfloor>x * real (m_bins s)\<rfloor>"
  have b: "?b < m_bins s" by (rule bin_of_coordinate(1)[OF x assms(2)])
  have lo: "lower_edge s d ?b = Inr (real ?b / real (m_bins s))"
    using lower_edge_in_bounds[OF wf d, of ?b] uniform_grid_nth[OF assms(1) d, of ?b] b by simp
  have hi: "upper_edge s d ?b = Inr (real (?b + 1) / real (m_bins s))"
    using upper_edge_in_bounds[OF wf d b] uniform_grid_nth[OF assms(1) d, of "?b + 1"] b
    by (simp add: add.assoc)
  have ih: "map_coords s (d + 1) xs = Inr (xs, 1)"
    using Cons.prems by (intro Cons.IH) simp_all
  have nr: "\<not> (x < 0 \<or> 1 \<le> x)" using x by simp
  show ?case
    unfolding map_coords.simps Let_def lo hi ih
    by (simp only: nr if_False sum.case prod.case uniform_interpolation[OF assms(2)])
qed

text \<open>
  Claim C3. In a uniform grid with at least one bin per dimension (whose size is a \<open>size_t\<close>
  value), a point with as many coordinates as the map has dimensions, all in \<open>[0, 1)\<close>,
  is mapped to itself, and the Jacobian is 1 (in exact arithmetic).
\<close>

theorem uniform_grid_maps_identically:
  assumes "uniform_grid s" and "1 \<le> m_bins s" and "m_dims s * (m_bins s + 1) < 2 ^ 64"
    and "length point = m_dims s" and "\<forall>x\<in>set point. 0 \<le> x \<and> x < 1"
  shows "AdaptiveMap2_call s point = Inr (point, 1)"
  unfolding AdaptiveMap2_call_def
  using map_coords_uniform[OF assms(1,2,3), of 0 point] assms(4,5) by simp

theorem uniform_grid_maps_identically_witness:
  "uniform_grid two_by_two \<and> 1 \<le> m_bins two_by_two \<and>
   m_dims two_by_two * (m_bins two_by_two + 1) < 2 ^ 64 \<and>
   length [1 / 4, 3 / 4 :: real] = m_dims two_by_two \<and>
   (0::real) \<le> 1 / 4 \<and> (1::real) / 4 < 1 \<and> (0::real) \<le> 3 / 4 \<and> (3::real) / 4 < 1 \<and>
   AdaptiveMap2_call two_by_two [1 / 4, 3 / 4] = Inr ([1 / 4, 3 / 4], 1)"
proof -
  have u: "uniform_grid two_by_two"
    by (simp add: uniform_grid_def uniform_row_def numeral_2_eq_2 numeral_3_eq_3)
  have b: "1 \<le> m_bins two_by_two" and n: "m_dims two_by_two * (m_bins two_by_two + 1) < 2 ^ 64"
    and l: "length [1 / 4, 3 / 4 :: real] = m_dims two_by_two"
    by simp_all
  have r: "(0::real) \<le> 1 / 4 \<and> (1::real) / 4 < 1 \<and> (0::real) \<le> 3 / 4 \<and> (3::real) / 4 < 1"
    by simp
  then have p: "\<forall>x\<in>set [1 / 4, 3 / 4 :: real]. 0 \<le> x \<and> x < 1" by simp
  from uniform_grid_maps_identically[OF u b n l p] u b n l r show ?thesis by blast
qed

subsection \<open>Splitting refines the grid\<close>

lemma refine_step:
  assumes "1 \<le> k"
  shows "refine k (lo # hi # es) =
         map (\<lambda>j. lo + real j * (hi - lo) / real k) [0..<k] @ refine k (hi # es)"
proof -
  have "[0..<k] = 0 # [1..<k]" using assms by (simp add: upt_conv_Cons)
  then show ?thesis by simp
qed

lemma length_refine:
  "1 \<le> k \<Longrightarrow> es \<noteq> [] \<Longrightarrow> length (refine k es) = k * (length es - 1) + 1"
proof (induction k es rule: refine.induct)
  case (1 k lo hi es)
  then show ?case by (simp add: refine_step del: refine.simps)
qed simp_all

lemma refine_nth:
  "1 \<le> k \<Longrightarrow> b + 1 < length es \<Longrightarrow> j < k \<Longrightarrow>
   refine k es ! (k * b + j) = es ! b + real j * (es ! (b + 1) - es ! b) / real k"
proof (induction k es arbitrary: b rule: refine.induct)
  case (1 k lo hi es)
  let ?f = "\<lambda>j. lo + real j * (hi - lo) / real k"
  show ?case
  proof (cases b)
    case 0
    have "(map ?f [0..<k] @ refine k (hi # es)) ! j = map ?f [0..<k] ! j"
      using "1.prems"(3) by (simp add: nth_append)
    also have "\<dots> = ?f j" using "1.prems"(3) by simp
    finally show ?thesis
      unfolding refine_step[OF "1.prems"(1)] using 0 by simp
  next
    case (Suc b')
    have i: "k * b + j = k + (k * b' + j)" using Suc by simp
    have "(map ?f [0..<k] @ refine k (hi # es)) ! (k + (k * b' + j)) = refine k (hi # es) ! (k * b' + j)"
      by (simp add: nth_append)
    also have "\<dots> = (hi # es) ! b' + real j * ((hi # es) ! (b' + 1) - (hi # es) ! b') / real k"
      using "1.prems" Suc by (intro "1.IH") simp_all
    finally show ?thesis
      unfolding refine_step[OF "1.prems"(1)] i using Suc by simp
  qed
qed simp_all

lemma refine_nth_kept:
  "1 \<le> k \<Longrightarrow> b < length es \<Longrightarrow> refine k es ! (k * b) = es ! b"
proof (induction k es arbitrary: b rule: refine.induct)
  case (1 k lo hi es)
  let ?f = "\<lambda>j. lo + real j * (hi - lo) / real k"
  show ?case
  proof (cases b)
    case 0
    have "(map ?f [0..<k] @ refine k (hi # es)) ! 0 = map ?f [0..<k] ! 0"
      using "1.prems"(1) by (simp add: nth_append)
    also have "\<dots> = lo" using "1.prems"(1) by simp
    finally show ?thesis
      unfolding refine_step[OF "1.prems"(1)] using 0 by simp
  next
    case (Suc b')
    have i: "k * b = k + k * b'" using Suc by simp
    have "(map ?f [0..<k] @ refine k (hi # es)) ! (k + k * b') = refine k (hi # es) ! (k * b')"
      by (simp add: nth_append)
    also have "\<dots> = (hi # es) ! b'"
      using "1.prems" Suc by (intro "1.IH") simp_all
    finally show ?thesis
      unfolding refine_step[OF "1.prems"(1)] i using Suc by simp
  qed
qed simp_all

lemma set_refine: "set es \<subseteq> set (refine k es)"
  by (induction k es rule: refine.induct) auto

lemma length_concat_rows:
  "(\<And>d. d < n \<Longrightarrow> length (f d) = L) \<Longrightarrow> length (concat (map f [0..<n])) = n * L"
  by (induction n) simp_all

lemma nth_concat_rows:
  "(\<And>d. d < n \<Longrightarrow> length (f d) = L) \<Longrightarrow> d < n \<Longrightarrow> i < L \<Longrightarrow>
   concat (map f [0..<n]) ! (d * L + i) = f d ! i"
proof (induction n)
  case 0
  then show ?case by simp
next
  case (Suc n)
  have len: "length (concat (map f [0..<n])) = n * L"
    using Suc.prems(1) by (intro length_concat_rows) simp
  show ?case
  proof (cases "d < n")
    case True
    have "d * L + i < d * L + L" using Suc.prems(3) by simp
    also have "\<dots> = (d + 1) * L" by simp
    also have "\<dots> \<le> n * L" using True by (intro mult_right_mono) simp_all
    finally have "d * L + i < length (concat (map f [0..<n]))" using len by simp
    then have "concat (map f [0..<Suc n]) ! (d * L + i) = concat (map f [0..<n]) ! (d * L + i)"
      by (simp add: nth_append)
    also have "\<dots> = f d ! i"
      using Suc.prems True by (intro Suc.IH) simp_all
    finally show ?thesis .
  next
    case False
    with Suc.prems(2) have d: "d = n" by simp
    show ?thesis
      unfolding d using len by (simp add: nth_append)
  qed
qed

lemma slice_eqI:
  assumes "(d + 1) * L \<le> length xs" "length ys = L" "\<And>i. i < L \<Longrightarrow> xs ! (d * L + i) = ys ! i"
  shows "take L (drop (d * L) xs) = ys"
proof (rule nth_equalityI)
  have "d * L + L \<le> length xs" using assms(1) by simp
  then show "length (take L (drop (d * L) xs)) = length ys"
    using assms(2) by simp
next
  fix i assume "i < length (take L (drop (d * L) xs))"
  then have i: "i < L" by simp
  have "d * L + L \<le> length xs" using assms(1) by simp
  then show "take L (drop (d * L) xs) ! i = ys ! i"
    using i assms(3)[OF i] by simp
qed

lemma dim_edges_length:
  assumes "length (m_hist s) = m_dims s * (m_bins s + 1)" "d < m_dims s"
  shows "length (dim_edges s d) = m_bins s + 1"
proof -
  have "(d + 1) * (m_bins s + 1) \<le> m_dims s * (m_bins s + 1)"
    using assms(2) by (intro mult_right_mono) simp_all
  then have "d * (m_bins s + 1) + (m_bins s + 1) \<le> length (m_hist s)"
    using assms(1) by simp
  then show ?thesis by (simp add: dim_edges_def)
qed

lemma dim_edges_nth:
  assumes "length (m_hist s) = m_dims s * (m_bins s + 1)" "d < m_dims s" "i \<le> m_bins s"
  shows "dim_edges s d ! i = m_hist s ! (d * (m_bins s + 1) + i)"
proof -
  have "(d + 1) * (m_bins s + 1) \<le> m_dims s * (m_bins s + 1)"
    using assms(2) by (intro mult_right_mono) simp_all
  then have "d * (m_bins s + 1) + (m_bins s + 1) \<le> length (m_hist s)"
    using assms(1) by simp
  then show ?thesis using assms(3) by (simp add: dim_edges_def)
qed

lemma nsplit_pos: "1 \<le> nsplit split"
  by (cases split) (simp_all add: nsplit_def)

lemma Split_rows:
  assumes "length (m_hist s) = m_dims s * (m_bins s + 1)" "d < m_dims s"
  shows "length (refine (nsplit split) (dim_edges s d)) = nsplit split * m_bins s + 1"
proof -
  have "dim_edges s d \<noteq> []" using dim_edges_length[OF assms] by auto
  from length_refine[OF nsplit_pos this] show ?thesis
    by (simp add: dim_edges_length[OF assms])
qed

lemma Split_length:
  assumes "length (m_hist s) = m_dims s * (m_bins s + 1)"
  shows "length (m_hist (Split split s)) = m_dims s * (nsplit split * m_bins s + 1)"
proof -
  have "length (concat (map (\<lambda>d. refine (nsplit split) (dim_edges s d)) [0..<m_dims s])) =
        m_dims s * (nsplit split * m_bins s + 1)"
    by (rule length_concat_rows) (rule Split_rows[OF assms])
  then show ?thesis by (simp only: Split_def AdaptiveMap2.select_convs)
qed

lemma Split_nth:
  assumes "length (m_hist s) = m_dims s * (m_bins s + 1)" "d < m_dims s"
    "i \<le> nsplit split * m_bins s"
  shows "m_hist (Split split s) ! (d * (nsplit split * m_bins s + 1) + i) =
         refine (nsplit split) (dim_edges s d) ! i"
proof -
  let ?L = "nsplit split * m_bins s + 1"
  let ?f = "\<lambda>d. refine (nsplit split) (dim_edges s d)"
  have "concat (map ?f [0..<m_dims s]) ! (d * ?L + i) = ?f d ! i"
  proof (rule nth_concat_rows)
    fix d' assume "d' < m_dims s"
    then show "length (?f d') = ?L" by (rule Split_rows[OF assms(1)])
  next
    show "d < m_dims s" by (rule assms(2))
    show "i < ?L" using assms(3) by simp
  qed
  then show ?thesis by (simp only: Split_def AdaptiveMap2.select_convs)
qed

lemma dim_edges_Split:
  assumes "length (m_hist s) = m_dims s * (m_bins s + 1)" "d < m_dims s"
  shows "dim_edges (Split split s) d = refine (nsplit split) (dim_edges s d)"
proof -
  let ?L = "nsplit split * m_bins s + 1"
  have b: "m_bins (Split split s) + 1 = ?L" by (simp add: Split_def)
  have "(d + 1) * ?L \<le> m_dims s * ?L" using assms(2) by (intro mult_right_mono) simp_all
  then have l: "(d + 1) * ?L \<le> length (m_hist (Split split s))"
    using Split_length[OF assms(1)] by simp
  have "dim_edges (Split split s) d = take ?L (drop (d * ?L) (m_hist (Split split s)))"
    by (simp only: dim_edges_def b)
  also have "\<dots> = refine (nsplit split) (dim_edges s d)"
  proof (rule slice_eqI[OF l Split_rows[OF assms]])
    fix i assume "i < ?L"
    then have "i \<le> nsplit split * m_bins s" by simp
    then show "m_hist (Split split s) ! (d * ?L + i) = refine (nsplit split) (dim_edges s d) ! i"
      by (rule Split_nth[OF assms])
  qed
  finally show ?thesis .
qed

text \<open>
  Claim C5. In a map whose vector holds \<open>m_dims * (m_bins + 1)\<close> edges, \<open>Split\<close> multiplies
  the bin count by 2, 3 or 4 (\<open>half\<close>, \<open>third\<close>, \<open>quarter\<close>) and keeps the dimension count.
  In every dimension every original edge \<open>b\<close> is found unchanged at position \<open>k * b\<close> of
  the new edges, the edges of the dimension before the split are among its edges after
  the split, and position \<open>k * b + j\<close> inside the original bin \<open>b\<close> with edges \<open>lo\<close> and \<open>hi\<close>
  holds \<open>lo + j * (hi - lo) / k\<close>: the midpoint for \<open>k = 2\<close>, the points at 1/3 and 2/3 for
  \<open>k = 3\<close>, the quartile points for \<open>k = 4\<close>.
\<close>

theorem Split_refines:
  assumes "length (m_hist s) = m_dims s * (m_bins s + 1)" and "d < m_dims s"
  shows "nsplit half = 2 \<and> nsplit third = 3 \<and> nsplit quarter = 4 \<and>
         m_dims (Split split s) = m_dims s \<and>
         m_bins (Split split s) = nsplit split * m_bins s \<and>
         length (m_hist (Split split s)) = m_dims s * (nsplit split * m_bins s + 1) \<and>
         (\<forall>b\<le>m_bins s.
            m_hist (Split split s) ! (d * (nsplit split * m_bins s + 1) + nsplit split * b) =
            m_hist s ! (d * (m_bins s + 1) + b)) \<and>
         (\<forall>b<m_bins s. \<forall>j<nsplit split.
            m_hist (Split split s) ! (d * (nsplit split * m_bins s + 1) + nsplit split * b + j) =
            m_hist s ! (d * (m_bins s + 1) + b) +
            real j * (m_hist s ! (d * (m_bins s + 1) + b + 1) - m_hist s ! (d * (m_bins s + 1) + b))
              / real (nsplit split)) \<and>
         set (dim_edges s d) \<subseteq> set (dim_edges (Split split s) d)"
proof (intro conjI allI impI)
  show "nsplit half = 2" "nsplit third = 3" "nsplit quarter = 4"
    by (simp_all add: nsplit_def)
  show "m_dims (Split split s) = m_dims s" "m_bins (Split split s) = nsplit split * m_bins s"
    by (simp_all add: Split_def)
  show "length (m_hist (Split split s)) = m_dims s * (nsplit split * m_bins s + 1)"
    by (rule Split_length[OF assms(1)])
  show "set (dim_edges s d) \<subseteq> set (dim_edges (Split split s) d)"
    unfolding dim_edges_Split[OF assms] by (rule set_refine)
next
  fix b assume b: "b \<le> m_bins s"
  have "nsplit split * b \<le> nsplit split * m_bins s" using b by simp
  from Split_nth[OF assms this]
  have "m_hist (Split split s) ! (d * (nsplit split * m_bins s + 1) + nsplit split * b) =
        refine (nsplit split) (dim_edges s d) ! (nsplit split * b)" .
  also have "\<dots> = dim_edges s d ! b"
    using b by (intro refine_nth_kept[OF nsplit_pos]) (simp add: dim_edges_length[OF assms])
  also have "\<dots> = m_hist s ! (d * (m_bins s + 1) + b)"
    by (rule dim_edges_nth[OF assms b])
  finally show "m_hist (Split split s) ! (d * (nsplit split * m_bins s + 1) + nsplit split * b) =
            m_hist s ! (d * (m_bins s + 1) + b)" .
next
  fix b j assume b: "b < m_bins s" and j: "j < nsplit split"
  let ?k = "nsplit split"
  have "?k * b + j < ?k * b + ?k" using j by simp
  also have "\<dots> = ?k * (b + 1)" by simp
  also have "\<dots> \<le> ?k * m_bins s" using b by (intro mult_left_mono) simp_all
  finally have i: "?k * b + j \<le> ?k * m_bins s" by simp
  have "m_hist (Split split s) ! (d * (?k * m_bins s + 1) + (?k * b + j)) =
        refine ?k (dim_edges s d) ! (?k * b + j)"
    by (rule Split_nth[OF assms i])
  also have "\<dots> = dim_edges s d ! b + real j * (dim_edges s d ! (b + 1) - dim_edges s d ! b) / real ?k"
    using b j by (intro refine_nth[OF nsplit_pos]) (simp_all add: dim_edges_length[OF assms])
  also have "dim_edges s d ! b = m_hist s ! (d * (m_bins s + 1) + b)"
    using b by (intro dim_edges_nth[OF assms]) simp
  also have "dim_edges s d ! (b + 1) = m_hist s ! (d * (m_bins s + 1) + b + 1)"
    using b dim_edges_nth[OF assms, of "b + 1"] by (simp add: add.assoc)
  finally show "m_hist (Split split s) ! (d * (?k * m_bins s + 1) + ?k * b + j) =
            m_hist s ! (d * (m_bins s + 1) + b) +
            real j * (m_hist s ! (d * (m_bins s + 1) + b + 1) - m_hist s ! (d * (m_bins s + 1) + b))
              / real ?k"
    by (simp add: add.assoc)
qed

theorem Split_refines_witness:
  "length (m_hist two_by_one) = m_dims two_by_one * (m_bins two_by_one + 1) \<and>
   (1::nat) < m_dims two_by_one \<and>
   m_dims (Split half two_by_one) = 2 \<and> m_bins (Split half two_by_one) = 2 \<and>
   length (m_hist (Split half two_by_one)) = 6 \<and>
   m_hist (Split half two_by_one) ! 3 = 0 \<and>
   m_hist (Split half two_by_one) ! 4 = 1 / 2 \<and>
   m_hist (Split half two_by_one) ! 5 = 1"
proof -
  have l: "length (m_hist two_by_one) = m_dims two_by_one * (m_bins two_by_one + 1)"
    and d: "(1::nat) < m_dims two_by_one"
    by simp_all
  note t = Split_refines[OF l d, of half]
  have k: "nsplit half = 2" using t by blast
  have b0: "(0::nat) \<le> m_bins two_by_one" and b1: "(1::nat) \<le> m_bins two_by_one"
    and c0: "(0::nat) < m_bins two_by_one" and j1: "(1::nat) < nsplit half"
    using k by simp_all
  note t3 = t[THEN conjunct2, THEN conjunct2, THEN conjunct2]
  note dims = t3[THEN conjunct1]
  note bins = t3[THEN conjunct2, THEN conjunct1]
  note len = t3[THEN conjunct2, THEN conjunct2, THEN conjunct1]
  note kept = t3[THEN conjunct2, THEN conjunct2, THEN conjunct2, THEN conjunct1]
  note new = t3[THEN conjunct2, THEN conjunct2, THEN conjunct2, THEN conjunct2, THEN conjunct1]
  note e3 = kept[THEN spec, of 0, THEN mp, OF b0]
  note e5 = kept[THEN spec, of 1, THEN mp, OF b1]
  note e4 = new[THEN spec, of 0, THEN mp, OF c0, THEN spec, of 1, THEN mp, OF j1]
  have "m_hist (Split half two_by_one) ! 3 = 0"
    using e3 unfolding k by simp
  moreover have "m_hist (Split half two_by_one) ! 5 = 1"
    using e5 unfolding k by simp
  moreover have "m_hist (Split half two_by_one) ! 4 = 1 / 2"
    using e4 unfolding k by simp
  moreover have "m_dims (Split half two_by_one) = 2" "m_bins (Split half two_by_one) = 2"
    "length (m_hist (Split half two_by_one)) = 6"
    using dims bins len unfolding k by simp_all
  ultimately show ?thesis using l d by simp
qed

subsection \<open>Splitting keeps the edges strictly increasing\<close>

text \<open>
  Of the operations that change the edges, the specification determines \<open>Split\<close> only; the
  update rule of \<open>Adapt\<close> is neither in the sources at hand nor fixed by the specification.
  For \<open>Split\<close>, a dimension whose edges increase strictly keeps this property (in exact
  arithmetic).
\<close>

lemma refine_lower_bound:
  "1 \<le> k \<Longrightarrow> sorted_wrt (<) es \<Longrightarrow> y \<in> set (refine k es) \<Longrightarrow> hd es \<le> y"
proof (induction k es arbitrary: y rule: refine.induct)
  case (1 k lo hi es)
  from "1.prems"(2) have lh: "lo < hi" and st: "sorted_wrt (<) (hi # es)" by simp_all
  from "1.prems"(3) consider j where "j < k" "y = lo + real j * (hi - lo) / real k"
    | "y \<in> set (refine k (hi # es))"
    unfolding refine_step[OF "1.prems"(1)] by auto
  then show ?case
  proof cases
    case 1
    have "0 \<le> real j * (hi - lo) / real k" using lh by simp
    with 1 show ?thesis by simp
  next
    case 2
    from "1.IH"[OF "1.prems"(1) st 2] lh show ?thesis by simp
  qed
qed simp_all

lemma refine_strictly_increasing:
  "1 \<le> k \<Longrightarrow> sorted_wrt (<) es \<Longrightarrow> sorted_wrt (<) (refine k es)"
proof (induction k es rule: refine.induct)
  case (1 k lo hi es)
  from "1.prems"(2) have lh: "lo < hi" and st: "sorted_wrt (<) (hi # es)" by simp_all
  let ?f = "\<lambda>j. lo + real j * (hi - lo) / real k"
  have kpos: "0 < real k" using "1.prems"(1) by simp
  have mono: "?f i < ?f j" if "i < j" for i j
  proof -
    have "real i * (hi - lo) < real j * (hi - lo)" using that lh by simp
    then have "real i * (hi - lo) / real k < real j * (hi - lo) / real k"
      using kpos by (simp add: divide_strict_right_mono)
    then show ?thesis by simp
  qed
  have a: "sorted_wrt (<) (map ?f [0..<k])"
    unfolding sorted_wrt_map
    by (rule sorted_wrt_mono_rel[of _ "(<)"]) (use mono in simp_all)
  have b: "sorted_wrt (<) (refine k (hi # es))"
    by (rule "1.IH"[OF "1.prems"(1) st])
  have c: "x < y" if "x \<in> set (map ?f [0..<k])" "y \<in> set (refine k (hi # es))" for x y
  proof -
    from that(1) obtain j where j: "j < k" "x = ?f j" by auto
    have "real j * (hi - lo) < real k * (hi - lo)" using j(1) lh by simp
    then have "real j * (hi - lo) / real k < hi - lo"
      using kpos by (simp add: divide_less_eq mult.commute)
    then have "x < hi" using j(2) by simp
    moreover have "hi \<le> y" using refine_lower_bound[OF "1.prems"(1) st that(2)] by simp
    ultimately show ?thesis by simp
  qed
  show ?case
    unfolding refine_step[OF "1.prems"(1)] sorted_wrt_append using a b c by blast
qed simp_all

lemma Split_strictly_increasing:
  assumes "length (m_hist s) = m_dims s * (m_bins s + 1)" "d < m_dims s"
    "sorted_wrt (<) (dim_edges s d)"
  shows "sorted_wrt (<) (dim_edges (Split split s) d)"
  unfolding dim_edges_Split[OF assms(1,2)]
  by (rule refine_strictly_increasing[OF nsplit_pos assms(3)])

subsection \<open>Rounding to binary64\<close>

lemma floor_log2_eq:
  assumes "2 powi k \<le> \<bar>x\<bar>" "\<bar>x\<bar> < 2 powi (k + 1)"
  shows "\<lfloor>log 2 \<bar>x\<bar>\<rfloor> = k"
proof -
  have pos: "0 < \<bar>x\<bar>"
  proof -
    have "(0::real) < 2 powi k" by simp
    with assms(1) show ?thesis by linarith
  qed
  have p: "(2::real) powr real_of_int j = 2 powi j" for j
    by (rule powr_real_of_int') simp_all
  have "\<lfloor>log 2 \<bar>x\<bar>\<rfloor> = k \<longleftrightarrow>
        2 powr real_of_int k \<le> \<bar>x\<bar> \<and> \<bar>x\<bar> < 2 powr real_of_int (k + 1)"
    by (rule floor_log_eq_powr_iff[OF pos]) simp
  then show ?thesis unfolding p using assms by blast
qed

lemma floor_log2_bounds:
  assumes "x \<noteq> 0"
  shows "2 powi \<lfloor>log 2 \<bar>x\<bar>\<rfloor> \<le> \<bar>x\<bar>" "\<bar>x\<bar> < 2 powi (\<lfloor>log 2 \<bar>x\<bar>\<rfloor> + 1)"
proof -
  have pos: "0 < \<bar>x\<bar>" using assms by simp
  have p: "(2::real) powr real_of_int j = 2 powi j" for j
    by (rule powr_real_of_int') simp_all
  have "\<lfloor>log 2 \<bar>x\<bar>\<rfloor> = \<lfloor>log 2 \<bar>x\<bar>\<rfloor> \<longleftrightarrow>
        2 powr real_of_int \<lfloor>log 2 \<bar>x\<bar>\<rfloor> \<le> \<bar>x\<bar> \<and>
        \<bar>x\<bar> < 2 powr real_of_int (\<lfloor>log 2 \<bar>x\<bar>\<rfloor> + 1)"
    by (rule floor_log_eq_powr_iff[OF pos]) simp
  then have "2 powr real_of_int \<lfloor>log 2 \<bar>x\<bar>\<rfloor> \<le> \<bar>x\<bar> \<and>
        \<bar>x\<bar> < 2 powr real_of_int (\<lfloor>log 2 \<bar>x\<bar>\<rfloor> + 1)"
    by blast
  then show "2 powi \<lfloor>log 2 \<bar>x\<bar>\<rfloor> \<le> \<bar>x\<bar>" "\<bar>x\<bar> < 2 powi (\<lfloor>log 2 \<bar>x\<bar>\<rfloor> + 1)"
    unfolding p by simp_all
qed

lemma rne_eval:
  assumes "2 powi k \<le> \<bar>x\<bar>" "\<bar>x\<bar> < 2 powi (k + 1)"
  shows "rne x = of_int (round_even (x / 2 powi (k - 52))) * 2 powi (k - 52)"
proof -
  have "(0::real) < 2 powi k" by simp
  with assms(1) have "0 < \<bar>x\<bar>" by linarith
  then have "x \<noteq> 0" by simp
  then show ?thesis
    unfolding rne_def floor_log2_eq[OF assms] by simp
qed

lemma round_even_of_int: "round_even (of_int m) = m"
  by (simp add: round_even_def)

lemma rne_representable:
  assumes "\<bar>m\<bar> < 2 ^ 53"
  shows "rne (of_int m * 2 powi e) = of_int m * 2 powi e"
proof (cases "m = 0")
  case True
  then show ?thesis by (simp add: rne_def)
next
  case False
  let ?x = "of_int m * 2 powi e :: real"
  let ?k = "\<lfloor>log 2 \<bar>?x\<bar>\<rfloor>"
  have x0: "?x \<noteq> 0" using False by simp
  have ax: "\<bar>?x\<bar> = of_int \<bar>m\<bar> * 2 powi e" by (simp add: abs_mult)
  have "of_int \<bar>m\<bar> < (2::real) ^ 53" using assms by (metis of_int_less_iff of_int_numeral of_int_power)
  then have "\<bar>?x\<bar> < 2 ^ 53 * 2 powi e" unfolding ax by (simp add: mult_strict_right_mono)
  also have "\<dots> = 2 powi (53 + e)" by (simp add: power_int_add)
  finally have up: "\<bar>?x\<bar> < 2 powi (53 + e)" .
  have "(2::real) powi ?k < 2 powi (53 + e)"
    using floor_log2_bounds(1)[OF x0] up by linarith
  then have "?k < 53 + e"
  proof (rule contrapos_pp)
    assume "\<not> ?k < 53 + e"
    then have "53 + e \<le> ?k" by simp
    then have "(2::real) powi (53 + e) \<le> 2 powi ?k" by (rule power_int_increasing) simp
    then show "\<not> (2::real) powi ?k < 2 powi (53 + e)" by simp
  qed
  then have le: "0 \<le> e - (?k - 52)" by simp
  define n where "n = nat (e - (?k - 52))"
  define p where "p = (2::real) powi (?k - 52)"
  define pe where "pe = (2::real) powi e"
  have p0: "p \<noteq> 0" by (simp add: p_def)
  have e: "e = (?k - 52) + int n" using le by (simp add: n_def)
  have "(2::real) powi ((?k - 52) + int n) = 2 powi (?k - 52) * 2 powi (int n)"
    by (rule power_int_add) simp
  then have pe: "pe = p * 2 ^ n"
    unfolding pe_def p_def using e by simp
  have q: "of_int m * pe / p = of_int (m * 2 ^ n)"
    unfolding pe using p0 by simp
  have "rne ?x = of_int (round_even (?x / 2 powi (?k - 52))) * 2 powi (?k - 52)"
    using x0 by (simp add: rne_def)
  also have "\<dots> = of_int (round_even (of_int m * pe / p)) * p"
    by (simp only: p_def pe_def)
  also have "\<dots> = of_int (m * 2 ^ n) * p"
    unfolding q round_even_of_int ..
  also have "\<dots> = of_int m * pe"
    unfolding pe by simp
  finally show ?thesis by (simp only: pe_def)
qed

lemma rne_tenth: "rne (1 / 10) = 3602879701896397 / 2 ^ 55"
proof -
  have "rne (1 / 10) = of_int (round_even ((1 / 10) / 2 powi (- 4 - 52))) * 2 powi (- 4 - 52)"
    by (rule rne_eval) (simp_all add: power_int_minus)
  also have "(1 / 10 :: real) / 2 powi (- 4 - 52) = 72057594037927936 / 10"
    by (simp add: power_int_minus)
  also have "round_even (72057594037927936 / 10) = 7205759403792794"
  proof -
    have f: "\<lfloor>72057594037927936 / 10 :: real\<rfloor> = 7205759403792793" by linarith
    show ?thesis unfolding round_even_def f by simp
  qed
  finally show ?thesis by (simp add: power_int_minus)
qed

lemma rne_fifth: "rne (2 / 10) = 3602879701896397 / 2 ^ 54"
proof -
  have "rne (2 / 10) = of_int (round_even ((2 / 10) / 2 powi (- 3 - 52))) * 2 powi (- 3 - 52)"
    by (rule rne_eval) (simp_all add: power_int_minus)
  also have "(2 / 10 :: real) / 2 powi (- 3 - 52) = 72057594037927936 / 10"
    by (simp add: power_int_minus)
  also have "round_even (72057594037927936 / 10) = 7205759403792794"
  proof -
    have f: "\<lfloor>72057594037927936 / 10 :: real\<rfloor> = 7205759403792793" by linarith
    show ?thesis unfolding round_even_def f by simp
  qed
  finally show ?thesis by (simp add: power_int_minus)
qed

lemma rne_dyadic:
  assumes "x = of_int m * 2 powi e" "\<bar>m\<bar> < 2 ^ 53"
  shows "rne x = x"
  unfolding assms(1) using assms(2) by (rule rne_representable)

lemma rne_sum_tenth_fifth:
  "rne (3602879701896397 / 2 ^ 55 + 3602879701896397 / 2 ^ 54) = 5404319552844596 / 2 ^ 54"
proof -
  let ?x = "3602879701896397 / 2 ^ 55 + 3602879701896397 / 2 ^ 54 :: real"
  have "rne ?x = of_int (round_even (?x / 2 powi (- 2 - 52))) * 2 powi (- 2 - 52)"
    by (rule rne_eval) (simp_all add: power_int_minus)
  also have "?x / 2 powi (- 2 - 52) = 10808639105689191 / 2"
    by (simp add: power_int_minus)
  also have "round_even (10808639105689191 / 2) = 5404319552844596"
  proof -
    have f: "\<lfloor>10808639105689191 / 2 :: real\<rfloor> = 5404319552844595" by linarith
    show ?thesis unfolding round_even_def f by simp
  qed
  finally show ?thesis by (simp add: power_int_minus)
qed

lemma rne_difference_tenth_fifth:
  "rne (3602879701896397 / 2 ^ 55 - 3602879701896397 / 2 ^ 54) = - (3602879701896397 / 2 ^ 55)"
proof -
  have "rne (3602879701896397 / 2 ^ 55 - 3602879701896397 / 2 ^ 54) =
        3602879701896397 / 2 ^ 55 - 3602879701896397 / 2 ^ 54"
    by (rule rne_dyadic[where m = "- 3602879701896397" and e = "- 55"])
       (simp_all add: power_int_minus)
  then show ?thesis by simp
qed

lemma rne_back_tenth_fifth:
  "rne (5404319552844596 / 2 ^ 54 + - (3602879701896397 / 2 ^ 55)) = 7205759403792795 / 2 ^ 55"
proof -
  have "rne (5404319552844596 / 2 ^ 54 + - (3602879701896397 / 2 ^ 55)) =
        5404319552844596 / 2 ^ 54 + - (3602879701896397 / 2 ^ 55)"
    by (rule rne_dyadic[where m = "7205759403792795" and e = "- 55"])
       (simp_all add: power_int_minus)
  then show ?thesis by simp
qed

lemma rne_twice_tenth:
  "rne (2 * (3602879701896397 / 2 ^ 55)) = 7205759403792794 / 2 ^ 55"
proof -
  have "rne (2 * (3602879701896397 / 2 ^ 55)) = 2 * (3602879701896397 / 2 ^ 55)"
    by (rule rne_dyadic[where m = "7205759403792794" and e = "- 55"])
       (simp_all add: power_int_minus)
  then show ?thesis by simp
qed

subsection \<open>Fill\<close>

text \<open>
  Claim C8 as stated has the identities exact for every input. In binary64 arithmetic,
  with the doubles nearest to 0.1 and 0.2 as \<open>Gep\<close> and \<open>Gen\<close>, the sum \<open>Gep + Gen\<close> is
  rounded up, and \<open>Ges + Gev\<close> exceeds \<open>2 * Gep\<close> by \<open>2 ^ -55\<close>.
\<close>

theorem Fill_rounds:
  "Ges (Fill binary64 1 tenth_and_fifth) = 5404319552844596 / 2 ^ 54 \<and>
   Gev (Fill binary64 1 tenth_and_fifth) = - (3602879701896397 / 2 ^ 55) \<and>
   fadd binary64 (Ges (Fill binary64 1 tenth_and_fifth)) (Gev (Fill binary64 1 tenth_and_fifth)) =
     7205759403792795 / 2 ^ 55 \<and>
   fmul binary64 2 (Gep (Fill binary64 1 tenth_and_fifth)) = 7205759403792794 / 2 ^ 55 \<and>
   fadd binary64 (Ges (Fill binary64 1 tenth_and_fifth)) (Gev (Fill binary64 1 tenth_and_fifth)) \<noteq>
     fmul binary64 2 (Gep (Fill binary64 1 tenth_and_fifth))"
proof -
  have s: "Ges (Fill binary64 1 tenth_and_fifth) = 5404319552844596 / 2 ^ 54"
    using rne_sum_tenth_fifth by (simp add: Fill_def Let_def binary64_def)
  have v: "Gev (Fill binary64 1 tenth_and_fifth) = - (3602879701896397 / 2 ^ 55)"
    using rne_difference_tenth_fifth by (simp add: Fill_def Let_def binary64_def)
  have p: "Gep (Fill binary64 1 tenth_and_fifth) = 3602879701896397 / 2 ^ 55"
    by (simp add: Fill_def Let_def)
  have a: "fadd binary64 (Ges (Fill binary64 1 tenth_and_fifth)) (Gev (Fill binary64 1 tenth_and_fifth)) =
     7205759403792795 / 2 ^ 55"
    unfolding s v using rne_back_tenth_fifth by (simp add: binary64_def)
  have m: "fmul binary64 2 (Gep (Fill binary64 1 tenth_and_fifth)) = 7205759403792794 / 2 ^ 55"
    unfolding p using rne_twice_tenth by (simp add: binary64_def)
  have "(7205759403792795 / 2 ^ 55 :: real) \<noteq> 7205759403792794 / 2 ^ 55" by simp
  with s v a m show ?thesis by simp
qed

text \<open>
  Claim C8, as \<open>Fill\<close> computes. In every arithmetic \<open>Fill\<close> leaves \<open>Gep\<close>, \<open>Gen\<close>, \<open>Gmp\<close>, \<open>Gmn\<close>
  as they are and stores \<open>Ges = Gep + Gen\<close>, \<open>Gev = Gep - Gen\<close>, \<open>Gms = Gmp + Gmn\<close>,
  \<open>Gmv = Gmp - Gmn\<close> and, for \<open>tau \<noteq> -1\<close>, the four quotients
  \<open>F1s = (Ges + tau * Gms) / (1 + tau)\<close>, \<open>F2s = (Gms + tau * Ges) / (1 + tau)\<close>,
  \<open>F1v = (Gev + tau * Gmv) / (1 + tau)\<close>, \<open>F2v = (Gmv + tau * Gev) / (1 + tau)\<close>, each
  operation being the one of the arithmetic. Whenever the sum and the difference that
  \<open>Fill\<close> computes are free of rounding error, \<open>Ges + Gev = 2 Gep\<close> and \<open>Ges - Gev = 2 Gen\<close>
  hold of the stored values, and in binary64 the comparisons \<open>Ges + Gev == 2 * Gep\<close> and
  \<open>Ges - Gev == 2 * Gen\<close> hold; likewise for \<open>Gms\<close>, \<open>Gmv\<close>, \<open>Gmp\<close>, \<open>Gmn\<close>. In exact arithmetic
  the identities hold for every input.
\<close>

theorem Fill_identities:
  "Gep (Fill ar tau r) = Gep r \<and> Gen (Fill ar tau r) = Gen r \<and>
   Gmp (Fill ar tau r) = Gmp r \<and> Gmn (Fill ar tau r) = Gmn r \<and>
   Ges (Fill ar tau r) = fadd ar (Gep r) (Gen r) \<and>
   Gev (Fill ar tau r) = fsub ar (Gep r) (Gen r) \<and>
   Gms (Fill ar tau r) = fadd ar (Gmp r) (Gmn r) \<and>
   Gmv (Fill ar tau r) = fsub ar (Gmp r) (Gmn r) \<and>
   (tau \<noteq> - 1 \<longrightarrow>
      F1s (Fill ar tau r) =
        fdiv ar (fadd ar (Ges (Fill ar tau r)) (fmul ar tau (Gms (Fill ar tau r)))) (fadd ar 1 tau) \<and>
      F2s (Fill ar tau r) =
        fdiv ar (fadd ar (Gms (Fill ar tau r)) (fmul ar tau (Ges (Fill ar tau r)))) (fadd ar 1 tau) \<and>
      F1v (Fill ar tau r) =
        fdiv ar (fadd ar (Gev (Fill ar tau r)) (fmul ar tau (Gmv (Fill ar tau r)))) (fadd ar 1 tau) \<and>
      F2v (Fill ar tau r) =
        fdiv ar (fadd ar (Gmv (Fill ar tau r)) (fmul ar tau (Gev (Fill ar tau r)))) (fadd ar 1 tau)) \<and>
   (fadd ar (Gep r) (Gen r) = Gep r + Gen r \<and> fsub ar (Gep r) (Gen r) = Gep r - Gen r \<longrightarrow>
      Ges (Fill ar tau r) + Gev (Fill ar tau r) = 2 * Gep (Fill ar tau r) \<and>
      Ges (Fill ar tau r) - Gev (Fill ar tau r) = 2 * Gen (Fill ar tau r)) \<and>
   (fadd ar (Gmp r) (Gmn r) = Gmp r + Gmn r \<and> fsub ar (Gmp r) (Gmn r) = Gmp r - Gmn r \<longrightarrow>
      Gms (Fill ar tau r) + Gmv (Fill ar tau r) = 2 * Gmp (Fill ar tau r) \<and>
      Gms (Fill ar tau r) - Gmv (Fill ar tau r) = 2 * Gmn (Fill ar tau r)) \<and>
   (fadd binary64 (Gep r) (Gen r) = Gep r + Gen r \<and>
    fsub binary64 (Gep r) (Gen r) = Gep r - Gen r \<longrightarrow>
      fadd binary64 (Ges (Fill binary64 tau r)) (Gev (Fill binary64 tau r)) =
        fmul binary64 2 (Gep (Fill binary64 tau r)) \<and>
      fsub binary64 (Ges (Fill binary64 tau r)) (Gev (Fill binary64 tau r)) =
        fmul binary64 2 (Gen (Fill binary64 tau r))) \<and>
   (fadd binary64 (Gmp r) (Gmn r) = Gmp r + Gmn r \<and>
    fsub binary64 (Gmp r) (Gmn r) = Gmp r - Gmn r \<longrightarrow>
      fadd binary64 (Gms (Fill binary64 tau r)) (Gmv (Fill binary64 tau r)) =
        fmul binary64 2 (Gmp (Fill binary64 tau r)) \<and>
      fsub binary64 (Gms (Fill binary64 tau r)) (Gmv (Fill binary64 tau r)) =
        fmul binary64 2 (Gmn (Fill binary64 tau r))) \<and>
   Ges (Fill exact tau r) + Gev (Fill exact tau r) = 2 * Gep (Fill exact tau r) \<and>
   Ges (Fill exact tau r) - Gev (Fill exact tau r) = 2 * Gen (Fill exact tau r) \<and>
   Gms (Fill exact tau r) + Gmv (Fill exact tau r) = 2 * Gmp (Fill exact tau r) \<and>
   Gms (Fill exact tau r) - Gmv (Fill exact tau r) = 2 * Gmn (Fill exact tau r) \<and>
   (tau \<noteq> - 1 \<longrightarrow>
      F1s (Fill exact tau r) =
        (Ges (Fill exact tau r) + tau * Gms (Fill exact tau r)) / (1 + tau) \<and>
      F2s (Fill exact tau r) =
        (Gms (Fill exact tau r) + tau * Ges (Fill exact tau r)) / (1 + tau) \<and>
      F1v (Fill exact tau r) =
        (Gev (Fill exact tau r) + tau * Gmv (Fill exact tau r)) / (1 + tau) \<and>
      F2v (Fill exact tau r) =
        (Gmv (Fill exact tau r) + tau * Gev (Fill exact tau r)) / (1 + tau))"
  by (intro conjI impI) (simp_all add: Fill_def Let_def exact_def binary64_def)

lemma rne_small_int: "\<bar>m\<bar> < 2 ^ 53 \<Longrightarrow> rne (of_int m) = of_int m"
  using rne_representable[of m 0] by simp

theorem Fill_identities_witness:
  "(1::real) \<noteq> - 1 \<and>
   fadd binary64 (Gep sample_values) (Gen sample_values) = Gep sample_values + Gen sample_values \<and>
   fsub binary64 (Gep sample_values) (Gen sample_values) = Gep sample_values - Gen sample_values \<and>
   fadd binary64 (Gmp sample_values) (Gmn sample_values) = Gmp sample_values + Gmn sample_values \<and>
   fsub binary64 (Gmp sample_values) (Gmn sample_values) = Gmp sample_values - Gmn sample_values \<and>
   Gep (Fill binary64 1 sample_values) = 3 \<and>
   Ges (Fill binary64 1 sample_values) = 4 \<and> Gev (Fill binary64 1 sample_values) = 2 \<and>
   Gms (Fill binary64 1 sample_values) = 7 \<and> Gmv (Fill binary64 1 sample_values) = 3 \<and>
   Ges (Fill binary64 1 sample_values) + Gev (Fill binary64 1 sample_values) = 2 * 3 \<and>
   Gms (Fill binary64 1 sample_values) - Gmv (Fill binary64 1 sample_values) = 2 * 2 \<and>
   fadd binary64 (Ges (Fill binary64 1 sample_values)) (Gev (Fill binary64 1 sample_values)) =
     fmul binary64 2 (Gep (Fill binary64 1 sample_values)) \<and>
   F1s (Fill binary64 1 sample_values) = fdiv binary64 (fadd binary64 4 (fmul binary64 1 7)) (fadd binary64 1 1) \<and>
   Ges (Fill exact 1 sample_values) + Gev (Fill exact 1 sample_values) = 2 * 3"
proof -
  have t: "(1::real) \<noteq> - 1" by simp
  have r4: "rne 4 = 4" and r2: "rne 2 = 2" and r7: "rne 7 = 7" and r3: "rne 3 = 3"
    using rne_small_int[of 4] rne_small_int[of 2] rne_small_int[of 7] rne_small_int[of 3]
    by simp_all
  have e: "fadd binary64 (Gep sample_values) (Gen sample_values) = Gep sample_values + Gen sample_values"
    "fsub binary64 (Gep sample_values) (Gen sample_values) = Gep sample_values - Gen sample_values"
    and m: "fadd binary64 (Gmp sample_values) (Gmn sample_values) = Gmp sample_values + Gmn sample_values"
    "fsub binary64 (Gmp sample_values) (Gmn sample_values) = Gmp sample_values - Gmn sample_values"
    using r4 r2 r7 r3 by (simp_all add: binary64_def)
  note f = Fill_identities[of binary64 1 sample_values]
  have g: "Gep (Fill binary64 1 sample_values) = 3" "Gen (Fill binary64 1 sample_values) = 1"
    "Gmp (Fill binary64 1 sample_values) = 5" "Gmn (Fill binary64 1 sample_values) = 2"
    using f by simp_all
  have s: "Ges (Fill binary64 1 sample_values) = 4" "Gev (Fill binary64 1 sample_values) = 2"
    "Gms (Fill binary64 1 sample_values) = 7" "Gmv (Fill binary64 1 sample_values) = 3"
  proof -
    have "Ges (Fill binary64 1 sample_values) = fadd binary64 (Gep sample_values) (Gen sample_values)"
      "Gev (Fill binary64 1 sample_values) = fsub binary64 (Gep sample_values) (Gen sample_values)"
      "Gms (Fill binary64 1 sample_values) = fadd binary64 (Gmp sample_values) (Gmn sample_values)"
      "Gmv (Fill binary64 1 sample_values) = fsub binary64 (Gmp sample_values) (Gmn sample_values)"
      using f by blast+
    then show "Ges (Fill binary64 1 sample_values) = 4" "Gev (Fill binary64 1 sample_values) = 2"
      "Gms (Fill binary64 1 sample_values) = 7" "Gmv (Fill binary64 1 sample_values) = 3"
      unfolding e m by simp_all
  qed
  have i: "Ges (Fill binary64 1 sample_values) + Gev (Fill binary64 1 sample_values) =
        2 * Gep (Fill binary64 1 sample_values)"
    "Gms (Fill binary64 1 sample_values) - Gmv (Fill binary64 1 sample_values) =
        2 * Gmn (Fill binary64 1 sample_values)"
    using f e m by blast+
  have c: "fadd binary64 (Ges (Fill binary64 1 sample_values)) (Gev (Fill binary64 1 sample_values)) =
     fmul binary64 2 (Gep (Fill binary64 1 sample_values))"
    using f e by blast
  have q: "F1s (Fill binary64 1 sample_values) =
        fdiv binary64 (fadd binary64 (Ges (Fill binary64 1 sample_values))
          (fmul binary64 1 (Gms (Fill binary64 1 sample_values)))) (fadd binary64 1 1)"
    using f t by blast
  have x: "Ges (Fill exact 1 sample_values) + Gev (Fill exact 1 sample_values) =
        2 * Gep (Fill exact 1 sample_values)"
    using f by blast
  have xg: "Gep (Fill exact 1 sample_values) = 3"
    using Fill_identities[of exact 1 sample_values] by simp
  show ?thesis
    using t e m g(1) s i[unfolded g] c q[unfolded s] x[unfolded xg] by simp
qed

end
